theory Spec2Isabelle
  imports Main "HOL-Library.Word"
begin

unbundle bit_operations_syntax

section \<open>Bytes and strings\<close>

text \<open>
  A Go \<open>string\<close> and a \<open>[]byte\<close> are sequences of bytes; both are modelled as
  \<^typ>\<open>string\<close> (a list of 8-bit characters). Bytes are compared through their
  numeric value \<open>of_char\<close>.
\<close>

definition byte :: "char \<Rightarrow> nat" where
  "byte c = of_char c"

definition isDigit :: "string \<Rightarrow> nat \<Rightarrow> bool" where
  \<comment> \<open>\<open>time.isDigit\<close>: false when the index is out of range.\<close>
  "isDigit s i = (if length s \<le> i then False else 48 \<le> byte (s ! i) \<and> byte (s ! i) \<le> 57)"

definition digit_char :: "nat \<Rightarrow> char" where
  "digit_char n = char_of (48 + n)"

function decimal :: "nat \<Rightarrow> string" where
  "decimal n = (if n < 10 then [digit_char n] else decimal (n div 10) @ [digit_char (n mod 10)])"
  by pat_completeness auto
termination
  by (relation "measure id") auto

declare decimal.simps [simp del]

section \<open>The standard library's time values\<close>

text \<open>
  The repository's \<open>Date\<close> is declared as \<open>type Date time.Time\<close>, so a \<open>Date\<close>
  value is a \<open>time.Time\<close> struct: the words \<open>wall\<close> and \<open>ext\<close> and the location
  pointer \<open>loc\<close>. The functions of package \<open>time\<close> that \<open>MarshalJSON\<close> and
  \<open>UnmarshalJSON\<close> call (\<open>Format\<close>, \<open>Parse\<close>, \<open>Date\<close> and their helpers) belong to
  Go's standard library, not to the repository; they are transcribed here from the
  library's classic implementation (400/100/4/1-year cycles from the absolute epoch).

  A location other than UTC is represented by its lookup function, from a Unix time to
  the zone offset in seconds and the validity interval of that offset. The nil location
  pointer of a \<open>Time\<close> means UTC.
\<close>

datatype Location = UTC | Zone "int \<Rightarrow> int \<times> int \<times> int"

record Time =
  wall :: "64 word"
  ext :: "64 word"
  loc :: "Location option"

type_synonym Date = Time

definition secondsPerMinute :: int where "secondsPerMinute = 60"
definition secondsPerHour :: int where "secondsPerHour = 60 * secondsPerMinute"
definition secondsPerDay :: int where "secondsPerDay = 24 * secondsPerHour"
definition daysPer400Years :: int where "daysPer400Years = 365 * 400 + 97"
definition daysPer100Years :: int where "daysPer100Years = 365 * 100 + 24"
definition daysPer4Years :: int where "daysPer4Years = 365 * 4 + 1"

definition absoluteZeroYear :: int where "absoluteZeroYear = - 292277022399"
definition internalYear :: int where "internalYear = 1"

definition absoluteToInternal :: int where
  \<comment> \<open>\<open>(absoluteZeroYear - internalYear) * 365.2425 * secondsPerDay\<close>, an exact constant.\<close>
  "absoluteToInternal = ((absoluteZeroYear - internalYear) * 3652425 * secondsPerDay) div 10000"
definition internalToAbsolute :: int where "internalToAbsolute = - absoluteToInternal"
definition unixToInternal :: int where
  "unixToInternal = (1969 * 365 + 1969 div 4 - 1969 div 100 + 1969 div 400) * secondsPerDay"
definition internalToUnix :: int where "internalToUnix = - unixToInternal"
definition wallToInternal :: int where
  "wallToInternal = (1884 * 365 + 1884 div 4 - 1884 div 100 + 1884 div 400) * secondsPerDay"

definition hasMonotonic :: "64 word" where "hasMonotonic = push_bit 63 1"
definition nsecShift :: nat where "nsecShift = 30"

definition sec :: "Time \<Rightarrow> 64 word" where
  \<comment> \<open>\<open>Time.sec\<close>: seconds since 1 January of year 1, as an int64.\<close>
  "sec t = (if wall t AND hasMonotonic \<noteq> 0
            then word_of_int wallToInternal + drop_bit (nsecShift + 1) (push_bit 1 (wall t))
            else ext t)"

definition unixSec :: "Time \<Rightarrow> 64 word" where
  "unixSec t = sec t + word_of_int internalToUnix"

definition get_loc :: "Location option \<Rightarrow> Location" where
  \<comment> \<open>\<open>Location.get\<close>: the nil pointer stands for UTC.\<close>
  "get_loc l = (case l of None \<Rightarrow> UTC | Some l' \<Rightarrow> l')"

definition lookup :: "Location \<Rightarrow> int \<Rightarrow> int \<times> int \<times> int" where
  \<comment> \<open>\<open>Location.lookup\<close>: offset, start and end; UTC has offset 0 over all int64 times.\<close>
  "lookup l s = (case l of UTC \<Rightarrow> (0, - (2 ^ 63), 2 ^ 63 - 1) | Zone f \<Rightarrow> f s)"

definition abs_time :: "Time \<Rightarrow> 64 word" where
  \<comment> \<open>\<open>Time.abs\<close>: seconds since the absolute epoch in the time's zone, as a uint64.\<close>
  "abs_time t =
     (let l = get_loc (loc t);
          s = unixSec t;
          s' = (case l of UTC \<Rightarrow> s | Zone f \<Rightarrow> s + word_of_int (fst (lookup l (sint s))))
      in s' + word_of_int (unixToInternal + internalToAbsolute))"

definition isLeap :: "int \<Rightarrow> bool" where
  "isLeap year = (year mod 4 = 0 \<and> (year mod 100 \<noteq> 0 \<or> year mod 400 = 0))"

definition daysBefore :: "int list" where
  "daysBefore = [0, 31, 31 + 28, 31 + 28 + 31, 31 + 28 + 31 + 30, 31 + 28 + 31 + 30 + 31,
     31 + 28 + 31 + 30 + 31 + 30, 31 + 28 + 31 + 30 + 31 + 30 + 31,
     31 + 28 + 31 + 30 + 31 + 30 + 31 + 31, 31 + 28 + 31 + 30 + 31 + 30 + 31 + 31 + 30,
     31 + 28 + 31 + 30 + 31 + 30 + 31 + 31 + 30 + 31,
     31 + 28 + 31 + 30 + 31 + 30 + 31 + 31 + 30 + 31 + 30,
     31 + 28 + 31 + 30 + 31 + 30 + 31 + 31 + 30 + 31 + 30 + 31]"

definition January :: int where "January = 1"
definition February :: int where "February = 2"
definition March :: int where "March = 3"

definition daysIn :: "int \<Rightarrow> int \<Rightarrow> int" where
  "daysIn m year =
     (if m = February \<and> isLeap year then 29
      else daysBefore ! nat m - daysBefore ! nat (m - 1))"

definition absYear :: "int \<Rightarrow> int \<times> int" where
  \<comment> \<open>First half of \<open>absDate\<close>: the year and the zero-based day of the year.
      The argument is the value of the uint64 \<open>abs\<close>; no intermediate exceeds it.\<close>
  "absYear a =
     (let d = a div secondsPerDay;
          n = d div daysPer400Years;
          y = 400 * n;
          d = d - daysPer400Years * n;
          n = d div daysPer100Years;
          n = n - drop_bit 2 n;
          y = y + 100 * n;
          d = d - daysPer100Years * n;
          n = d div daysPer4Years;
          y = y + 4 * n;
          d = d - daysPer4Years * n;
          n = d div 365;
          n = n - drop_bit 2 n;
          y = y + n;
          d = d - 365 * n
      in (y + absoluteZeroYear, d))"

definition monthEstimate :: "int \<Rightarrow> int \<times> int" where
  \<comment> \<open>The tail of \<open>absDate\<close>: estimate the month on the assumption that every month
      has 31 days; the estimate may be too low by at most one month, so adjust.\<close>
  "monthEstimate day =
     (let month = day div 31;
          e = daysBefore ! nat (month + 1)
      in if day \<ge> e then (month + 1 + 1, day - e + 1)
         else (month + 1, day - daysBefore ! nat month + 1))"

definition monthDay :: "int \<Rightarrow> int \<Rightarrow> int \<times> int" where
  \<comment> \<open>Second half of \<open>absDate\<close> (\<open>full = true\<close>): month and day of the month from
      the year and the zero-based day of the year.\<close>
  "monthDay year yday =
     (if isLeap year \<and> yday = 31 + 29 - 1 then (February, 29)
      else monthEstimate (if isLeap year \<and> yday > 31 + 29 - 1 then yday - 1 else yday))"

definition absDate :: "int \<Rightarrow> int \<times> int \<times> int \<times> int" where
  \<comment> \<open>\<open>absDate(abs, true)\<close>: year, month, day, yday.\<close>
  "absDate a =
     (let (year, yday) = absYear a; (month, day) = monthDay year yday
      in (year, month, day, yday))"

definition norm :: "int \<Rightarrow> int \<Rightarrow> int \<Rightarrow> int \<times> int" where
  \<comment> \<open>\<open>time.norm\<close>; the quotients are of non-negative numbers.\<close>
  "norm hi lo base =
     (let (hi, lo) = (if lo < 0
                      then (let n = (- lo - 1) div base + 1 in (hi - n, lo + n * base))
                      else (hi, lo))
      in if lo \<ge> base then (let n = lo div base in (hi + n, lo - n * base)) else (hi, lo))"

definition daysSinceEpoch :: "int \<Rightarrow> int" where
  \<comment> \<open>\<open>y := uint64(int64(year) - absoluteZeroYear)\<close>: the conversion wraps.\<close>
  "daysSinceEpoch year =
     (let y = (year - absoluteZeroYear) mod 2 ^ 64;
          n = y div 400;
          y = y - 400 * n;
          d = daysPer400Years * n;
          n = y div 100;
          y = y - 100 * n;
          d = d + daysPer100Years * n;
          n = y div 4;
          y = y - 4 * n;
          d = d + daysPer4Years * n;
          n = y;
          d = d + 365 * n
      in d)"

definition Date :: "int \<Rightarrow> int \<Rightarrow> int \<Rightarrow> int \<Rightarrow> int \<Rightarrow> int \<Rightarrow> int \<Rightarrow> Location \<Rightarrow> Time" where
  \<comment> \<open>\<open>time.Date\<close>. The uint64 sums are written on integers and wrapped once, when
      \<open>abs\<close> is converted. The last line is \<open>unixTime(unix, nsec)\<close> followed by
      \<open>setLoc(loc)\<close>, which stores UTC as the nil pointer and replaces the provisional
      location that \<open>unixTime\<close> had set.\<close>
  "Date year month day hour minute second nsec l =
     (let m = month - 1;
          (year, m) = norm year m 12;
          month = m + 1;
          (second, nsec) = norm second nsec 1000000000;
          (minute, second) = norm minute second 60;
          (hour, minute) = norm hour minute 60;
          (day, hour) = norm day hour 24;
          d = daysSinceEpoch year;
          d = d + daysBefore ! nat (month - 1);
          d = (if isLeap year \<and> month \<ge> March then d + 1 else d);
          d = d + (day - 1);
          a = d * secondsPerDay;
          a = a + (hour * secondsPerHour + minute * secondsPerMinute + second);
          unix = (word_of_int a :: 64 word) + word_of_int (absoluteToInternal + internalToUnix);
          (offset, start, e) = lookup l (sint unix);
          unix = (if offset \<noteq> 0
                  then (let utc = sint unix - offset;
                            offset' = (if utc < start \<or> utc \<ge> e
                                       then fst (lookup l utc) else offset)
                        in unix - word_of_int offset')
                  else unix)
      in \<lparr>wall = word_of_int nsec, ext = unix + word_of_int unixToInternal,
          loc = (case l of UTC \<Rightarrow> None | Zone f \<Rightarrow> Some l)\<rparr>)"

section \<open>Formatting and parsing with the layout of the repository\<close>

text \<open>
  \<open>const dateLayout = "2006-01-02"\<close>. The library's \<open>nextStdChunk\<close> cuts this layout
  into three elements: the four-digit year \<open>2006\<close> with no text before it, the
  zero-padded month \<open>01\<close> after the text \<open>-\<close>, and the zero-padded day \<open>02\<close> after
  the text \<open>-\<close>; nothing follows the last element. \<open>Format\<close> and \<open>Parse\<close> are
  modelled for the elements that occur in this layout.
\<close>

datatype std = stdLongYear | stdZeroMonth | stdZeroDay

definition dateLayout :: string where
  "dateLayout = ''2006-01-02''"

definition dateLayout_chunks :: "(string \<times> std) list" where
  "dateLayout_chunks = [([], stdLongYear), (''-'', stdZeroMonth), (''-'', stdZeroDay)]"

definition stdstr :: "std \<Rightarrow> string" where
  "stdstr e = (case e of stdLongYear \<Rightarrow> ''2006'' | stdZeroMonth \<Rightarrow> ''01'' | stdZeroDay \<Rightarrow> ''02'')"

definition appendInt :: "string \<Rightarrow> int \<Rightarrow> nat \<Rightarrow> string" where
  \<comment> \<open>\<open>time.appendInt\<close>: a minus sign for a negative number, then the decimal digits,
      zero-padded to the width.\<close>
  "appendInt b x width =
     (let b = (if x < 0 then b @ ''-'' else b);
          ds = decimal (nat \<bar>x\<bar>)
      in b @ replicate (width - length ds) (CHR ''0'') @ ds)"

fun appendFormat :: "string \<Rightarrow> int \<times> int \<times> int \<Rightarrow> (string \<times> std) list \<Rightarrow> string" where
  "appendFormat b ymd [] = b"
| "appendFormat b (year, month, day) ((prefix, e) # layout) =
     (let b = b @ prefix;
          b = (case e of
                 stdLongYear \<Rightarrow> appendInt b year 4
               | stdZeroMonth \<Rightarrow> appendInt b month 2
               | stdZeroDay \<Rightarrow> appendInt b day 2)
      in appendFormat b (year, month, day) layout)"

definition Format :: "Time \<Rightarrow> string" where
  \<comment> \<open>\<open>Time.Format(dateLayout)\<close>.\<close>
  "Format t =
     (let (year, month, day, yday) = absDate (uint (abs_time t))
      in appendFormat [] (year, month, day) dateLayout_chunks)"

datatype error =
    SyntaxError string
  | UnmarshalTypeError string
  | ParseError string string string string string

definition cutspace :: "string \<Rightarrow> string" where
  "cutspace s = dropWhile (\<lambda>c. c = CHR '' '') s"

function skip :: "string \<Rightarrow> string \<Rightarrow> string \<times> bool" where
  "skip v [] = (v, True)"
| "skip v (p # prefix) =
     (if p = CHR '' '' then
        (if v \<noteq> [] \<and> hd v \<noteq> CHR '' '' then (v, False)
         else skip (cutspace v) (cutspace prefix))
      else if v = [] \<or> hd v \<noteq> p then (v, False)
      else skip (tl v) prefix)"
  by pat_completeness auto
termination
  by (relation "measure (\<lambda>(v, p). length p)")
     (auto simp: cutspace_def le_imp_less_Suc length_dropWhile_le)

fun leadingInt :: "int \<Rightarrow> string \<Rightarrow> (int \<times> string) option" where
  \<comment> \<open>\<open>time.leadingInt\<close>, with the accumulator as an argument; \<open>None\<close> is the
      overflow error.\<close>
  "leadingInt x [] = Some (x, [])"
| "leadingInt x (c # s) =
     (if byte c < 48 \<or> byte c > 57 then Some (x, c # s)
      else if x > 2 ^ 63 div 10 then None
      else (let x' = x * 10 + int (byte c) - 48
            in if x' > 2 ^ 63 then None else leadingInt x' s))"

definition atoi :: "string \<Rightarrow> int option" where
  "atoi s =
     (let neg = (s \<noteq> [] \<and> hd s = CHR ''-'');
          s = (if s \<noteq> [] \<and> (hd s = CHR ''-'' \<or> hd s = CHR ''+'') then tl s else s)
      in case leadingInt 0 s of
           None \<Rightarrow> None
         | Some (q, rem) \<Rightarrow>
             if rem \<noteq> [] then None else Some (if neg then - q else q))"

definition getnum :: "string \<Rightarrow> bool \<Rightarrow> (int \<times> string) option" where
  \<comment> \<open>\<open>time.getnum\<close>: one or two digits; with \<open>fixed\<close>, exactly two.\<close>
  "getnum s fixed =
     (if \<not> isDigit s 0 then None
      else if \<not> isDigit s 1 then
        (if fixed then None else Some (int (byte (s ! 0)) - 48, drop 1 s))
      else Some ((int (byte (s ! 0)) - 48) * 10 + (int (byte (s ! 1)) - 48), drop 2 s))"

fun parse_chunks ::
  "string \<Rightarrow> string \<Rightarrow> int \<times> int \<times> int \<Rightarrow> (string \<times> std) list \<Rightarrow>
   error + (int \<times> int \<times> int)" where
  "parse_chunks avalue v ymd [] =
     (if v \<noteq> [] then Inl (ParseError dateLayout avalue [] v ('': extra text: '' @ v))
      else Inr ymd)"
| "parse_chunks avalue v (year, month, day) ((prefix, e) # layout) =
     (case skip v prefix of
        (v', False) \<Rightarrow> Inl (ParseError dateLayout avalue prefix v' [])
      | (v', True) \<Rightarrow>
          (case e of
             stdLongYear \<Rightarrow>
               if length v' < 4 \<or> \<not> isDigit v' 0
               then Inl (ParseError dateLayout avalue (stdstr e) v' [])
               else (case atoi (take 4 v') of
                       None \<Rightarrow> Inl (ParseError dateLayout avalue (stdstr e) v' [])
                     | Some y \<Rightarrow> parse_chunks avalue (drop 4 v') (y, month, day) layout)
           | stdZeroMonth \<Rightarrow>
               (case getnum v' True of
                  None \<Rightarrow> Inl (ParseError dateLayout avalue (stdstr e) v' [])
                | Some (m, v'') \<Rightarrow>
                    if m \<le> 0 \<or> 12 < m
                    then Inl (ParseError dateLayout avalue (stdstr e) v'' '': month out of range'')
                    else parse_chunks avalue v'' (year, m, day) layout)
           | stdZeroDay \<Rightarrow>
               (case getnum v' True of
                  None \<Rightarrow> Inl (ParseError dateLayout avalue (stdstr e) v' [])
                | Some (d, v'') \<Rightarrow> parse_chunks avalue v'' (year, month, d) layout)))"

definition Parse :: "string \<Rightarrow> error + Time" where
  \<comment> \<open>\<open>time.Parse(dateLayout, value)\<close>: the elements, then the check of the day against
      the month, then \<open>Date\<close> in UTC (the layout has no zone element).\<close>
  "Parse v =
     (case parse_chunks v v (0, - 1, - 1) dateLayout_chunks of
        Inl e \<Rightarrow> Inl e
      | Inr (year, month, day) \<Rightarrow>
          if day < 1 \<or> day > daysIn month year
          then Inl (ParseError dateLayout v [] [] '': day out of range'')
          else Inr (Date year month day 0 0 0 0 UTC))"


section \<open>The standard library's JSON encoding of strings\<close>

text \<open>
  \<open>MarshalJSON\<close> calls \<open>json.Marshal\<close> on a string and \<open>UnmarshalJSON\<close> calls
  \<open>json.Unmarshal\<close> with a pointer to a string. Both belong to Go's standard library
  (\<open>encoding/json\<close>). The model follows the library: \<open>Unmarshal\<close> first runs the
  scanner over the whole input (\<open>checkValid\<close>) and only then decodes the value.

  The scanner is the library's state machine. Its field \<open>step\<close> is the datatype
  \<open>scan_state\<close>; its stack \<open>parseState\<close> is a list whose head is the innermost
  state. Its field \<open>err\<close> is set exactly when \<open>step\<close> is \<open>stateError\<close>, and its flag
  \<open>endTop\<close> is set exactly when \<open>step\<close> has reached \<open>stateEndTop\<close>, so neither is
  stored separately.
\<close>

subsection \<open>UTF-8\<close>

definition RuneError :: nat where "RuneError = 0xFFFD"

definition DecodeRune :: "string \<Rightarrow> nat \<times> nat" where
  \<comment> \<open>\<open>utf8.DecodeRune\<close>: the code point and its width in bytes; an invalid
      encoding gives \<open>(RuneError, 1)\<close>.\<close>
  "DecodeRune p =
     (case p of
        [] \<Rightarrow> (RuneError, 0)
      | c0 # _ \<Rightarrow>
          let b0 = byte c0 in
          if b0 < 0x80 then (b0, 1)
          else if b0 < 0xC2 \<or> 0xF4 < b0 then (RuneError, 1)
          else
            let sz = (if b0 < 0xE0 then 2 else if b0 < 0xF0 then 3 else 4 :: nat);
                lo = (if b0 = 0xE0 then 0xA0 else if b0 = 0xF0 then 0x90 else 0x80);
                hi = (if b0 = 0xED then 0x9F else if b0 = 0xF4 then 0x8F else 0xBF)
            in if length p < sz then (RuneError, 1)
               else
                 let b1 = byte (p ! 1) in
                 if b1 < lo \<or> hi < b1 then (RuneError, 1)
                 else if sz \<le> 2 then ((b0 mod 0x20) * 0x40 + b1 mod 0x40, 2)
                 else
                   let b2 = byte (p ! 2) in
                   if b2 < 0x80 \<or> 0xBF < b2 then (RuneError, 1)
                   else if sz \<le> 3
                   then ((b0 mod 0x10) * 0x1000 + (b1 mod 0x40) * 0x40 + b2 mod 0x40, 3)
                   else
                     let b3 = byte (p ! 3) in
                     if b3 < 0x80 \<or> 0xBF < b3 then (RuneError, 1)
                     else ((b0 mod 0x08) * 0x40000 + (b1 mod 0x40) * 0x1000
                             + (b2 mod 0x40) * 0x40 + b3 mod 0x40, 4))"

definition EncodeRune :: "nat \<Rightarrow> string" where
  \<comment> \<open>\<open>utf8.EncodeRune\<close>: surrogates and values beyond U+10FFFF are encoded as
      \<open>RuneError\<close>.\<close>
  "EncodeRune r =
     (let r = (if 0x10FFFF < r \<or> (0xD800 \<le> r \<and> r \<le> 0xDFFF) then RuneError else r)
      in if r < 0x80 then [char_of r]
         else if r < 0x800 then [char_of (0xC0 + r div 0x40), char_of (0x80 + r mod 0x40)]
         else if r < 0x10000
         then [char_of (0xE0 + r div 0x1000), char_of (0x80 + r div 0x40 mod 0x40),
               char_of (0x80 + r mod 0x40)]
         else [char_of (0xF0 + r div 0x40000), char_of (0x80 + r div 0x1000 mod 0x40),
               char_of (0x80 + r div 0x40 mod 0x40), char_of (0x80 + r mod 0x40)])"

definition hex :: string where "hex = ''0123456789abcdef''"

subsection \<open>Encoding a string\<close>

definition htmlSafe :: "char \<Rightarrow> bool" where
  \<comment> \<open>\<open>htmlSafeSet\<close>: the ASCII bytes that need no escape when HTML escaping is on.\<close>
  "htmlSafe c =
     (0x20 \<le> byte c \<and> byte c < 0x80 \<and> c \<noteq> CHR 0x22 \<and> c \<noteq> CHR 0x5C
      \<and> c \<noteq> CHR ''<'' \<and> c \<noteq> CHR ''>'' \<and> c \<noteq> CHR ''&'')"

fun appendString :: "string \<Rightarrow> string" where
  \<comment> \<open>The loop of \<open>encodeState.string\<close> with \<open>escapeHTML = true\<close>, without the quotes.
      After a rune of \<open>size\<close> bytes that starts at \<open>c\<close>, the loop goes on
      \<open>size - 1\<close> bytes further into the rest.\<close>
  "appendString [] = []"
| "appendString (c # s) =
     (if byte c < 0x80 then
        (if htmlSafe c then c # appendString s
         else if c = CHR 0x5C \<or> c = CHR 0x22 then CHR 0x5C # c # appendString s
         else if c = CHR 0x0A then CHR 0x5C # CHR ''n'' # appendString s
         else if c = CHR 0x0D then CHR 0x5C # CHR ''r'' # appendString s
         else if c = CHR 0x09 then CHR 0x5C # CHR ''t'' # appendString s
         else CHR 0x5C # CHR ''u'' # CHR ''0'' # CHR ''0''
                # hex ! (byte c div 16) # hex ! (byte c mod 16) # appendString s)
      else
        (let (r, size) = DecodeRune (c # s) in
         if r = RuneError \<and> size = 1 then CHR 0x5C # ''ufffd'' @ appendString s
         else if r = 0x2028 \<or> r = 0x2029
         then CHR 0x5C # ''u202'' @ hex ! (r mod 16) # appendString (drop (size - 1) s)
         else take size (c # s) @ appendString (drop (size - 1) s)))"

definition Marshal_string :: "string \<Rightarrow> error + string" where
  \<comment> \<open>\<open>json.Marshal(s)\<close> for a string \<open>s\<close>: the quoted, escaped string; no string
      makes it fail.\<close>
  "Marshal_string s = Inr (CHR 0x22 # appendString s @ [CHR 0x22])"

subsection \<open>The scanner\<close>

definition isSpace :: "char \<Rightarrow> bool" where
  "isSpace c = (byte c \<le> 0x20 \<and> (c = CHR 0x20 \<or> c = CHR 0x09 \<or> c = CHR 0x0D \<or> c = CHR 0x0A))"

datatype parse_state = parseObjectKey | parseObjectValue | parseArrayValue

datatype scan_state =
    stateBeginValueOrEmpty | stateBeginValue | stateBeginStringOrEmpty | stateBeginString
  | stateEndValue | stateEndTop
  | stateInString | stateInStringEsc
  | stateInStringEscU | stateInStringEscU1 | stateInStringEscU12 | stateInStringEscU123
  | stateNeg | state1 | state0 | stateDot | stateDot0 | stateE | stateESign | stateE0
  | stateT | stateTr | stateTru | stateF | stateFa | stateFal | stateFals
  | stateN | stateNu | stateNul
  | stateError

type_synonym scanner = "scan_state \<times> parse_state list"

definition maxNestingDepth :: nat where "maxNestingDepth = 10000"

definition pushParseState :: "parse_state list \<Rightarrow> parse_state \<Rightarrow> scan_state \<Rightarrow> scanner" where
  "pushParseState ps new successState =
     (if length (new # ps) \<le> maxNestingDepth then (successState, new # ps)
      else (stateError, new # ps))"

definition popParseState :: "parse_state list \<Rightarrow> scanner" where
  "popParseState ps =
     (let ps' = tl ps in if ps' = [] then (stateEndTop, ps') else (stateEndValue, ps'))"

definition isHex :: "char \<Rightarrow> bool" where
  "isHex c = ((0x30 \<le> byte c \<and> byte c \<le> 0x39) \<or> (0x61 \<le> byte c \<and> byte c \<le> 0x66)
              \<or> (0x41 \<le> byte c \<and> byte c \<le> 0x46))"

definition is09 :: "char \<Rightarrow> bool" where
  "is09 c = (0x30 \<le> byte c \<and> byte c \<le> 0x39)"

definition run_stateEndTop :: "parse_state list \<Rightarrow> char \<Rightarrow> scanner" where
  "run_stateEndTop ps c = (if \<not> isSpace c then (stateError, ps) else (stateEndTop, ps))"

definition run_stateEndValue :: "parse_state list \<Rightarrow> char \<Rightarrow> scanner" where
  "run_stateEndValue ps c =
     (case ps of
        [] \<Rightarrow> run_stateEndTop ps c
      | t # rest \<Rightarrow>
          if isSpace c then (stateEndValue, ps)
          else (case t of
                  parseObjectKey \<Rightarrow>
                    if c = CHR '':'' then (stateBeginValue, parseObjectValue # rest)
                    else (stateError, ps)
                | parseObjectValue \<Rightarrow>
                    if c = CHR '','' then (stateBeginString, parseObjectKey # rest)
                    else if c = CHR 0x7D then popParseState ps
                    else (stateError, ps)
                | parseArrayValue \<Rightarrow>
                    if c = CHR '','' then (stateBeginValue, ps)
                    else if c = CHR '']'' then popParseState ps
                    else (stateError, ps)))"

definition run_stateBeginValue :: "parse_state list \<Rightarrow> char \<Rightarrow> scanner" where
  "run_stateBeginValue ps c =
     (if isSpace c then (stateBeginValue, ps)
      else if c = CHR 0x7B then pushParseState ps parseObjectKey stateBeginStringOrEmpty
      else if c = CHR ''['' then pushParseState ps parseArrayValue stateBeginValueOrEmpty
      else if c = CHR 0x22 then (stateInString, ps)
      else if c = CHR ''-'' then (stateNeg, ps)
      else if c = CHR ''0'' then (state0, ps)
      else if c = CHR ''t'' then (stateT, ps)
      else if c = CHR ''f'' then (stateF, ps)
      else if c = CHR ''n'' then (stateN, ps)
      else if 0x31 \<le> byte c \<and> byte c \<le> 0x39 then (state1, ps)
      else (stateError, ps))"

definition run_stateBeginString :: "parse_state list \<Rightarrow> char \<Rightarrow> scanner" where
  "run_stateBeginString ps c =
     (if isSpace c then (stateBeginString, ps)
      else if c = CHR 0x22 then (stateInString, ps)
      else (stateError, ps))"

definition run_state0 :: "parse_state list \<Rightarrow> char \<Rightarrow> scanner" where
  "run_state0 ps c =
     (if c = CHR ''.'' then (stateDot, ps)
      else if c = CHR ''e'' \<or> c = CHR ''E'' then (stateE, ps)
      else run_stateEndValue ps c)"

definition run_stateESign :: "parse_state list \<Rightarrow> char \<Rightarrow> scanner" where
  "run_stateESign ps c = (if is09 c then (stateE0, ps) else (stateError, ps))"

definition expect :: "char \<Rightarrow> scan_state \<Rightarrow> parse_state list \<Rightarrow> char \<Rightarrow> scanner" where
  \<comment> \<open>The states inside \<open>true\<close>, \<open>false\<close> and \<open>null\<close>: one fixed letter is allowed.\<close>
  "expect want next ps c = (if c = want then (next, ps) else (stateError, ps))"

definition scan_step :: "scanner \<Rightarrow> char \<Rightarrow> scanner" where
  \<comment> \<open>\<open>s.step(s, c)\<close>.\<close>
  "scan_step sc c =
     (let (st, ps) = sc in
      case st of
        stateBeginValueOrEmpty \<Rightarrow>
          if isSpace c then (stateBeginValueOrEmpty, ps)
          else if c = CHR '']'' then run_stateEndValue ps c
          else run_stateBeginValue ps c
      | stateBeginValue \<Rightarrow> run_stateBeginValue ps c
      | stateBeginStringOrEmpty \<Rightarrow>
          if isSpace c then (stateBeginStringOrEmpty, ps)
          else if c = CHR 0x7D then run_stateEndValue (parseObjectValue # tl ps) c
          else run_stateBeginString ps c
      | stateBeginString \<Rightarrow> run_stateBeginString ps c
      | stateEndValue \<Rightarrow> run_stateEndValue ps c
      | stateEndTop \<Rightarrow> run_stateEndTop ps c
      | stateInString \<Rightarrow>
          if c = CHR 0x22 then (stateEndValue, ps)
          else if c = CHR 0x5C then (stateInStringEsc, ps)
          else if byte c < 0x20 then (stateError, ps)
          else (stateInString, ps)
      | stateInStringEsc \<Rightarrow>
          if c \<in> set ''bfnrt'' \<or> c = CHR 0x5C \<or> c = CHR ''/'' \<or> c = CHR 0x22
          then (stateInString, ps)
          else if c = CHR ''u'' then (stateInStringEscU, ps)
          else (stateError, ps)
      | stateInStringEscU \<Rightarrow> if isHex c then (stateInStringEscU1, ps) else (stateError, ps)
      | stateInStringEscU1 \<Rightarrow> if isHex c then (stateInStringEscU12, ps) else (stateError, ps)
      | stateInStringEscU12 \<Rightarrow> if isHex c then (stateInStringEscU123, ps) else (stateError, ps)
      | stateInStringEscU123 \<Rightarrow> if isHex c then (stateInString, ps) else (stateError, ps)
      | stateNeg \<Rightarrow>
          if c = CHR ''0'' then (state0, ps)
          else if 0x31 \<le> byte c \<and> byte c \<le> 0x39 then (state1, ps)
          else (stateError, ps)
      | state1 \<Rightarrow> if is09 c then (state1, ps) else run_state0 ps c
      | state0 \<Rightarrow> run_state0 ps c
      | stateDot \<Rightarrow> if is09 c then (stateDot0, ps) else (stateError, ps)
      | stateDot0 \<Rightarrow>
          if is09 c then (stateDot0, ps)
          else if c = CHR ''e'' \<or> c = CHR ''E'' then (stateE, ps)
          else run_stateEndValue ps c
      | stateE \<Rightarrow>
          if c = CHR ''+'' \<or> c = CHR ''-'' then (stateESign, ps) else run_stateESign ps c
      | stateESign \<Rightarrow> run_stateESign ps c
      | stateE0 \<Rightarrow> if is09 c then (stateE0, ps) else run_stateEndValue ps c
      | stateT \<Rightarrow> expect (CHR ''r'') stateTr ps c
      | stateTr \<Rightarrow> expect (CHR ''u'') stateTru ps c
      | stateTru \<Rightarrow> expect (CHR ''e'') stateEndValue ps c
      | stateF \<Rightarrow> expect (CHR ''a'') stateFa ps c
      | stateFa \<Rightarrow> expect (CHR ''l'') stateFal ps c
      | stateFal \<Rightarrow> expect (CHR ''s'') stateFals ps c
      | stateFals \<Rightarrow> expect (CHR ''e'') stateEndValue ps c
      | stateN \<Rightarrow> expect (CHR ''u'') stateNu ps c
      | stateNu \<Rightarrow> expect (CHR ''l'') stateNul ps c
      | stateNul \<Rightarrow> expect (CHR ''l'') stateEndValue ps c
      | stateError \<Rightarrow> (stateError, ps))"

fun scan_all :: "scanner \<Rightarrow> string \<Rightarrow> scanner" where
  \<comment> \<open>The loop of \<open>checkValid\<close>: it stops at the first error.\<close>
  "scan_all sc [] = sc"
| "scan_all sc (c # cs) =
     (let sc' = scan_step sc c in if fst sc' = stateError then sc' else scan_all sc' cs)"

definition checkValid :: "string \<Rightarrow> error option" where
  \<comment> \<open>\<open>checkValid\<close> with \<open>scanner.eof\<close>: at the end of the input a space is fed to
      the scanner unless the top-level value is already complete.\<close>
  "checkValid data =
     (let sc = scan_all (stateBeginValue, []) data in
      if fst sc = stateError then Some (SyntaxError ''invalid character'')
      else if fst sc = stateEndTop then None
      else if fst (scan_step sc (CHR 0x20)) = stateEndTop then None
      else Some (SyntaxError ''unexpected end of JSON input''))"

subsection \<open>Decoding into a string\<close>

definition hexval :: "char \<Rightarrow> nat option" where
  "hexval c =
     (if 0x30 \<le> byte c \<and> byte c \<le> 0x39 then Some (byte c - 0x30)
      else if 0x61 \<le> byte c \<and> byte c \<le> 0x66 then Some (byte c - 0x61 + 10)
      else if 0x41 \<le> byte c \<and> byte c \<le> 0x46 then Some (byte c - 0x41 + 10)
      else None)"

definition getu4 :: "string \<Rightarrow> nat option" where
  \<comment> \<open>\<open>getu4\<close>: the code unit of a \<open>\uXXXX\<close> escape at the head; \<open>None\<close> is \<open>-1\<close>.\<close>
  "getu4 s =
     (case s of
        b # u # h1 # h2 # h3 # h4 # _ \<Rightarrow>
          if b \<noteq> CHR 0x5C \<or> u \<noteq> CHR ''u'' then None
          else (case (hexval h1, hexval h2, hexval h3, hexval h4) of
                  (Some a, Some b, Some c, Some d) \<Rightarrow> Some (((a * 16 + b) * 16 + c) * 16 + d)
                | _ \<Rightarrow> None)
      | _ \<Rightarrow> None)"

definition utf16_IsSurrogate :: "nat \<Rightarrow> bool" where
  "utf16_IsSurrogate r = (0xD800 \<le> r \<and> r < 0xE000)"

definition utf16_DecodeRune :: "nat \<Rightarrow> nat option \<Rightarrow> nat" where
  \<comment> \<open>\<open>utf16.DecodeRune\<close>; the second unit may be missing (\<open>-1\<close>).\<close>
  "utf16_DecodeRune r1 r2 =
     (case r2 of
        None \<Rightarrow> RuneError
      | Some r2' \<Rightarrow>
          if 0xD800 \<le> r1 \<and> r1 < 0xDC00 \<and> 0xDC00 \<le> r2' \<and> r2' < 0xE000
          then (r1 - 0xD800) * 0x400 + (r2' - 0xDC00) + 0x10000
          else RuneError)"

fun unquote_body :: "string \<Rightarrow> string option" where
  \<comment> \<open>The second loop of \<open>unquoteBytes\<close>, on the literal without its quotes; \<open>None\<close>
      is \<open>ok = false\<close>. (The first loop only finds the prefix that needs no change.)\<close>
  "unquote_body [] = Some []"
| "unquote_body (c # s) =
     (if c = CHR 0x5C then
        (case s of
           [] \<Rightarrow> None
         | e # s' \<Rightarrow>
             if e = CHR 0x22 \<or> e = CHR 0x5C \<or> e = CHR ''/'' \<or> e = CHR 0x27
             then map_option ((#) e) (unquote_body s')
             else if e = CHR ''b'' then map_option ((#) (CHR 0x08)) (unquote_body s')
             else if e = CHR ''f'' then map_option ((#) (CHR 0x0C)) (unquote_body s')
             else if e = CHR ''n'' then map_option ((#) (CHR 0x0A)) (unquote_body s')
             else if e = CHR ''r'' then map_option ((#) (CHR 0x0D)) (unquote_body s')
             else if e = CHR ''t'' then map_option ((#) (CHR 0x09)) (unquote_body s')
             else if e = CHR ''u'' then
               (case getu4 (c # s) of
                  None \<Rightarrow> None
                | Some rr \<Rightarrow>
                    if utf16_IsSurrogate rr then
                      (let dec = utf16_DecodeRune rr (getu4 (drop 5 s)) in
                       if dec \<noteq> RuneError
                       then map_option ((@) (EncodeRune dec)) (unquote_body (drop 11 s))
                       else map_option ((@) (EncodeRune RuneError)) (unquote_body (drop 5 s)))
                    else map_option ((@) (EncodeRune rr)) (unquote_body (drop 5 s)))
             else None)
      else if c = CHR 0x22 \<or> byte c < 0x20 then None
      else if byte c < 0x80 then map_option ((#) c) (unquote_body s)
      else (let (rr, size) = DecodeRune (c # s)
            in map_option ((@) (EncodeRune rr)) (unquote_body (drop (size - 1) s))))"

fun rescanLiteral :: "string \<Rightarrow> string" where
  \<comment> \<open>\<open>rescanLiteral\<close> on a string literal, after its opening quote: the bytes up to
      the closing quote, a backslash taking the next byte with it.\<close>
  "rescanLiteral [] = []"
| "rescanLiteral [c] = (if c = CHR 0x22 then [] else [c])"
| "rescanLiteral (c # d # s) =
     (if c = CHR 0x5C then c # d # rescanLiteral s
      else if c = CHR 0x22 then []
      else c # rescanLiteral (d # s))"

definition Unmarshal_string :: "string \<Rightarrow> string \<Rightarrow> error option \<times> string" where
  \<comment> \<open>\<open>json.Unmarshal(data, &v)\<close> for a string variable holding \<open>v\<close>: the error and the
      variable afterwards. Only a JSON string sets the variable; \<open>null\<close> leaves it alone
      without an error; any other value is an \<open>UnmarshalTypeError\<close>.\<close>
  "Unmarshal_string data v =
     (case checkValid data of
        Some e \<Rightarrow> (Some e, v)
      | None \<Rightarrow>
          (case dropWhile isSpace data of
             [] \<Rightarrow> (Some (SyntaxError ''unexpected end of JSON input''), v)
           | c # rest \<Rightarrow>
               if c = CHR 0x7B then (Some (UnmarshalTypeError ''object''), v)
               else if c = CHR ''['' then (Some (UnmarshalTypeError ''array''), v)
               else if c = CHR ''n'' then (None, v)
               else if c = CHR ''t'' \<or> c = CHR ''f'' then (Some (UnmarshalTypeError ''bool''), v)
               else if c = CHR 0x22 then
                 (case unquote_body (rescanLiteral rest) of
                    None \<Rightarrow> (Some (SyntaxError ''invalid character''), v)
                  | Some s \<Rightarrow> (None, s))
               else (Some (UnmarshalTypeError ''number''), v)))"

section \<open>The Date codec of the repository\<close>

definition MarshalJSON :: "Date \<Rightarrow> error + string" where
  \<comment> \<open>\<open>s := time.Time(*d).Format(dateLayout); return json.Marshal(s)\<close>\<close>
  "MarshalJSON d = (let s = Format d in Marshal_string s)"

definition UnmarshalJSON :: "Date \<Rightarrow> string \<Rightarrow> error option \<times> Date" where
  \<comment> \<open>The receiver \<open>*d\<close> before the call, the input bytes; the returned error
      (\<open>None\<close> is \<open>nil\<close>) and the receiver after the call.\<close>
  "UnmarshalJSON d v =
     (let dateString = [] in
      case Unmarshal_string v dateString of
        (Some err, _) \<Rightarrow> (Some err, d)
      | (None, dateString) \<Rightarrow>
          (case Parse dateString of
             Inl err \<Rightarrow> (Some err, d)
           | Inr t \<Rightarrow> (None, t)))"


section \<open>Formatted printing\<close>

text \<open>
  The listing functions print with \<open>fmt.Printf\<close>. The verb \<open>%q\<close> on a string is
  \<open>strconv.Quote\<close>, transcribed here. Its test \<open>IsPrint\<close> is explicit up to U+00FF and
  reads Unicode tables above; the tables are the parameter \<open>tbl\<close>.

  The mixin \<open>HasID\<close> declares the field \<open>ID\<close> as an \<open>int64\<close>. The declarations of
  \<open>Workspace\<close>, \<open>Project\<close>, \<open>Task\<close> and \<open>Section\<close>, which carry it, are not in the
  sources at hand, so the listing functions are written for any type of \<open>ID\<close>, with the
  text that the verb \<open>%s\<close> produces for it as the parameter \<open>fmt_s\<close>. For a string,
  \<open>%s\<close> is the string itself (\<open>fmt_s_string\<close>); for the \<open>int64\<close> of \<open>HasID\<close> it is the
  bad-verb text of \<open>fmt\<close>, such as \<open>%!s(int64=7)\<close> (\<open>fmt_s_int64\<close>).
\<close>

definition lowerhex :: string where "lowerhex = ''0123456789abcdef''"

definition IsPrint :: "(nat \<Rightarrow> bool) \<Rightarrow> nat \<Rightarrow> bool" where
  "IsPrint tbl r =
     (if r \<le> 0xFF then
        (if 0x20 \<le> r \<and> r < 0x7F then True
         else if 0xA1 \<le> r then r \<noteq> 0xAD
         else False)
      else tbl r)"

definition ValidRune :: "nat \<Rightarrow> bool" where
  "ValidRune r = (r < 0xD800 \<or> (0xDFFF < r \<and> r \<le> 0x10FFFF))"

definition hexdigits :: "nat \<Rightarrow> nat \<Rightarrow> string" where
  \<comment> \<open>The lowest \<open>n\<close> hexadecimal digits of \<open>r\<close>, highest first.\<close>
  "hexdigits n r = map (\<lambda>i. lowerhex ! (r div 16 ^ i mod 16)) (rev [0..<n])"

definition appendEscapedRune :: "(nat \<Rightarrow> bool) \<Rightarrow> nat \<Rightarrow> string" where
  \<comment> \<open>\<open>appendEscapedRune\<close> with the double quote, \<open>ASCIIonly\<close> and \<open>graphicOnly\<close>
      false.\<close>
  "appendEscapedRune tbl r =
     (if r = 0x22 \<or> r = 0x5C then [CHR 0x5C, char_of r]
      else if IsPrint tbl r then EncodeRune r
      else if r = 0x07 then [CHR 0x5C, CHR ''a'']
      else if r = 0x08 then [CHR 0x5C, CHR ''b'']
      else if r = 0x0C then [CHR 0x5C, CHR ''f'']
      else if r = 0x0A then [CHR 0x5C, CHR ''n'']
      else if r = 0x0D then [CHR 0x5C, CHR ''r'']
      else if r = 0x09 then [CHR 0x5C, CHR ''t'']
      else if r = 0x0B then [CHR 0x5C, CHR ''v'']
      else if r < 0x20 \<or> r = 0x7F then CHR 0x5C # CHR ''x'' # hexdigits 2 r
      else if \<not> ValidRune r then CHR 0x5C # CHR ''u'' # hexdigits 4 0xFFFD
      else if r < 0x10000 then CHR 0x5C # CHR ''u'' # hexdigits 4 r
      else CHR 0x5C # CHR ''U'' # hexdigits 8 r)"

fun appendQuoted :: "(nat \<Rightarrow> bool) \<Rightarrow> string \<Rightarrow> string" where
  \<comment> \<open>The loop of \<open>appendQuotedWith\<close>, without the quotes.\<close>
  "appendQuoted tbl [] = []"
| "appendQuoted tbl (c # s) =
     (let (r, width) = (if 0x80 \<le> byte c then DecodeRune (c # s) else (byte c, 1)) in
      if width = 1 \<and> r = RuneError
      then CHR 0x5C # CHR ''x'' # hexdigits 2 (byte c) @ appendQuoted tbl s
      else appendEscapedRune tbl r @ appendQuoted tbl (drop (width - 1) s))"

definition Quote :: "(nat \<Rightarrow> bool) \<Rightarrow> string \<Rightarrow> string" where
  \<comment> \<open>\<open>strconv.Quote\<close>, the verb \<open>%q\<close>.\<close>
  "Quote tbl s = CHR 0x22 # appendQuoted tbl s @ [CHR 0x22]"

definition FormatInt :: "int \<Rightarrow> string" where
  \<comment> \<open>\<open>strconv.FormatInt(i, 10)\<close>\<close>
  "FormatInt i = (if i < 0 then ''-'' else []) @ decimal (nat \<bar>i\<bar>)"

definition fmt_s_int64 :: "64 word \<Rightarrow> string" where
  \<comment> \<open>The verb \<open>%s\<close> on an \<open>int64\<close> operand: \<open>fmt\<close>'s \<open>badVerb\<close> writes \<open>%!\<close>, the
      verb, and in parentheses the type of the operand, \<open>=\<close> and the operand as \<open>%v\<close>
      prints it, in decimal.\<close>
  "fmt_s_int64 v = ''%!s(int64='' @ FormatInt (sint v) @ '')''"

section \<open>The listing functions\<close>

text \<open>
  The entities carry the fields of the mixins \<open>HasID\<close> and \<open>HasName\<close>; a workspace also
  has \<open>IsOrganization\<close>. The methods of the API client that the listing functions call
  (\<open>c.Workspaces()\<close>, \<open>w.Projects(client)\<close>, \<open>p.Tasks(client)\<close>, \<open>p.Sections(client)\<close>)
  are not in the sources at hand: they are the fields of the record \<open>Client\<close>, each
  giving the triple that the call returns (the results, the continuation token
  \<open>nextPage\<close> and the error, \<open>None\<close> for \<open>nil\<close>).

  The effects are explicit: \<open>stdout\<close> is the text written to standard output so far and
  \<open>calls\<close> the list calls issued so far.
\<close>

record 'id Object =
  ID :: 'id
  Name :: string

record 'id Workspace = "'id Object" +
  IsOrganization :: bool

type_synonym 'id Project = "'id Object"
type_synonym 'id Task = "'id Object"
type_synonym 'id Section = "'id Object"

record ('id, 'p, 'e) Client =
  Workspaces :: "'id Workspace list \<times> 'p \<times> 'e option"
  Projects :: "'id Workspace \<Rightarrow> 'id Project list \<times> 'p \<times> 'e option"
  Tasks :: "'id Project \<Rightarrow> 'id Task list \<times> 'p \<times> 'e option"
  Sections :: "'id Project \<Rightarrow> 'id Section list \<times> 'p \<times> 'e option"

datatype call = CallWorkspaces | CallProjects | CallTasks | CallSections

record world =
  stdout :: string
  calls :: "call list"

definition Printf :: "world \<Rightarrow> string \<Rightarrow> world" where
  "Printf w s = w\<lparr>stdout := stdout w @ s\<rparr>"

definition issue :: "world \<Rightarrow> call \<Rightarrow> world" where
  "issue w c = w\<lparr>calls := calls w @ [c]\<rparr>"

definition ListWorkspaces ::
  "('id \<Rightarrow> string) \<Rightarrow> (nat \<Rightarrow> bool) \<Rightarrow> ('id, 'p, 'e) Client \<Rightarrow> world \<Rightarrow> 'e option \<times> world" where
  "ListWorkspaces fmt_s tbl c w =
     (let (workspaces, nextPage, err) = Workspaces c;
          w = issue w CallWorkspaces
      in case err of
           Some e \<Rightarrow> (Some e, w)
         | None \<Rightarrow>
             (None,
              foldl (\<lambda>w workspace.
                       if IsOrganization workspace
                       then Printf w (''Organization '' @ fmt_s (ID workspace) @ '' ''
                                       @ Quote tbl (Name workspace) @ [CHR 0x0A])
                       else Printf w (''Workspace '' @ fmt_s (ID workspace) @ '' ''
                                       @ Quote tbl (Name workspace) @ [CHR 0x0A]))
                    w workspaces))"

definition ListProjects ::
  "('id \<Rightarrow> string) \<Rightarrow> (nat \<Rightarrow> bool) \<Rightarrow> ('id, 'p, 'e) Client \<Rightarrow> 'id Workspace \<Rightarrow> world
   \<Rightarrow> 'e option \<times> world" where
  "ListProjects fmt_s tbl client ws w =
     (let (projects, nextPage, err) = Projects client ws;
          w = issue w CallProjects
      in case err of
           Some e \<Rightarrow> (Some e, w)
         | None \<Rightarrow>
             (None,
              foldl (\<lambda>w project.
                       Printf w (''Project '' @ fmt_s (ID project) @ '': ''
                                  @ Quote tbl (Name project) @ [CHR 0x0A]))
                    w projects))"

definition ListTasks ::
  "('id \<Rightarrow> string) \<Rightarrow> (nat \<Rightarrow> bool) \<Rightarrow> ('id, 'p, 'e) Client \<Rightarrow> 'id Project \<Rightarrow> world
   \<Rightarrow> 'e option \<times> world" where
  "ListTasks fmt_s tbl client p w =
     (let (tasks, nextPage, err) = Tasks client p;
          w = issue w CallTasks
      in case err of
           Some e \<Rightarrow> (Some e, w)
         | None \<Rightarrow>
             (None,
              foldl (\<lambda>w task.
                       Printf w (''Task '' @ fmt_s (ID task) @ '' ''
                                  @ Quote tbl (Name task) @ [CHR 0x0A]))
                    w tasks))"

definition ListSections ::
  "('id \<Rightarrow> string) \<Rightarrow> (nat \<Rightarrow> bool) \<Rightarrow> ('id, 'p, 'e) Client \<Rightarrow> 'id Project \<Rightarrow> world
   \<Rightarrow> 'e option \<times> world" where
  "ListSections fmt_s tbl client p w =
     (let (sections, nextPage, err) = Sections client p;
          w = issue w CallSections
      in case err of
           Some e \<Rightarrow> (Some e, w)
         | None \<Rightarrow>
             (None,
              foldl (\<lambda>w section.
                       Printf w (''Section '' @ fmt_s (ID section) @ '' ''
                                  @ Quote tbl (Name section) @ [CHR 0x0A]))
                    w sections))"


section \<open>Words of the specification and example inputs\<close>

text \<open>
  The specification's pattern \<open>YYYY-MM-DD\<close>, written out independently of the library:
  four decimal digits, a hyphen, two digits, a hyphen, two digits.
\<close>

definition digits2 :: "int \<Rightarrow> string" where
  "digits2 n = [digit_char (nat n div 10 mod 10), digit_char (nat n mod 10)]"

definition digits4 :: "int \<Rightarrow> string" where
  "digits4 n = [digit_char (nat n div 1000 mod 10), digit_char (nat n div 100 mod 10),
                digit_char (nat n div 10 mod 10), digit_char (nat n mod 10)]"

definition yyyy_mm_dd :: "int \<Rightarrow> int \<Rightarrow> int \<Rightarrow> string" where
  "yyyy_mm_dd y m d = digits4 y @ ''-'' @ digits2 m @ ''-'' @ digits2 d"

definition matches_pattern :: "string \<Rightarrow> bool" where
  \<comment> \<open>The string has the shape \<open>YYYY-MM-DD\<close>.\<close>
  "matches_pattern s =
     (length s = 10 \<and> is09 (s ! 0) \<and> is09 (s ! 1) \<and> is09 (s ! 2) \<and> is09 (s ! 3)
      \<and> s ! 4 = CHR ''-'' \<and> is09 (s ! 5) \<and> is09 (s ! 6)
      \<and> s ! 7 = CHR ''-'' \<and> is09 (s ! 8) \<and> is09 (s ! 9))"

definition valid_date :: "int \<Rightarrow> int \<Rightarrow> int \<Rightarrow> bool" where
  \<comment> \<open>A calendar date that the pattern can write: a year of four digits, a month of
      the year, a day of that month.\<close>
  "valid_date y m d =
     (0 \<le> y \<and> y \<le> 9999 \<and> 1 \<le> m \<and> m \<le> 12 \<and> 1 \<le> d \<and> d \<le> daysIn m y)"

definition yday_of :: "int \<Rightarrow> int \<Rightarrow> int \<Rightarrow> int" where
  \<comment> \<open>The zero-based day of the year of a calendar date, as \<open>Date\<close> adds it up.\<close>
  "yday_of y m d =
     daysBefore ! nat (m - 1) + (if isLeap y \<and> March \<le> m then 1 else 0) + (d - 1)"

definition is_json_string :: "string \<Rightarrow> bool" where
  \<comment> \<open>The JSON text, after leading white space, begins a string literal.\<close>
  "is_json_string data =
     (case dropWhile isSpace data of [] \<Rightarrow> False | c # _ \<Rightarrow> c = CHR 0x22)"

definition quoted :: "string \<Rightarrow> string" where
  "quoted s = CHR 0x22 # s @ [CHR 0x22]"

definition lines_text :: "string list \<Rightarrow> string" where
  \<comment> \<open>The text of a list of lines, each ended by a newline.\<close>
  "lines_text ls = concat (map (\<lambda>l. l @ [CHR 0x0A]) ls)"

definition line3 :: "string \<Rightarrow> string \<Rightarrow> string \<Rightarrow> string" where
  \<comment> \<open>\<open><TypeLabel> <ID> <Quoted Name>\<close>\<close>
  "line3 label ident qname = label @ '' '' @ ident @ '' '' @ qname"

definition workspace_label :: "'id Workspace \<Rightarrow> string" where
  "workspace_label x = (if IsOrganization x then ''Organization'' else ''Workspace'')"

definition fmt_s_string :: "string \<Rightarrow> string" where
  \<comment> \<open>The verb \<open>%s\<close> on a string operand.\<close>
  "fmt_s_string s = s"

definition no_table :: "nat \<Rightarrow> bool" where
  "no_table r = False"

definition w0 :: world where
  "w0 = \<lparr>stdout = ''> '', calls = []\<rparr>"

definition acme :: "string Workspace" where
  "acme = \<lparr>ID = ''1'', Name = ''Acme'', IsOrganization = True\<rparr>"

definition home :: "string Workspace" where
  "home = \<lparr>ID = ''2'', Name = ''Home'', IsOrganization = False\<rparr>"

definition plan :: "string Project" where
  "plan = \<lparr>ID = ''7'', Name = ''x''\<rparr>"

definition demo_client :: "(string, nat, string) Client" where
  "demo_client =
     \<lparr>Workspaces = ([acme, home], 1, None),
      Projects = (\<lambda>w. ([plan], 2, None)),
      Tasks = (\<lambda>p. ([\<lparr>ID = ''8'', Name = ''t''\<rparr>], 3, None)),
      Sections = (\<lambda>p. ([\<lparr>ID = ''9'', Name = ''s''\<rparr>], 4, None))\<rparr>"


definition failing_client :: "(string, nat, string) Client" where
  "failing_client =
     \<lparr>Workspaces = ([acme], 0, Some ''boom''),
      Projects = (\<lambda>w. ([plan], 0, Some ''boom'')),
      Tasks = (\<lambda>p. ([plan], 0, Some ''boom'')),
      Sections = (\<lambda>p. ([plan], 0, Some ''boom''))\<rparr>"

definition empty_client :: "(string, nat, string) Client" where
  "empty_client =
     \<lparr>Workspaces = ([], 0, None),
      Projects = (\<lambda>w. ([], 0, None)),
      Tasks = (\<lambda>p. ([], 0, None)),
      Sections = (\<lambda>p. ([], 0, None))\<rparr>"

definition acme_org :: "64 word Workspace" where
  "acme_org = \<lparr>ID = 1, Name = ''Acme'', IsOrganization = True\<rparr>"

definition home_ws :: "64 word Workspace" where
  "home_ws = \<lparr>ID = 2, Name = ''Home'', IsOrganization = False\<rparr>"

definition plan_project :: "64 word Project" where
  "plan_project = \<lparr>ID = 7, Name = ''x''\<rparr>"

definition int64_client :: "(64 word, nat, string) Client" where
  \<comment> \<open>A client whose entities have the \<open>int64\<close> identifiers of \<open>HasID\<close>.\<close>
  "int64_client =
     \<lparr>Workspaces = ([acme_org, home_ws], 1, None),
      Projects = (\<lambda>w. ([plan_project], 2, None)),
      Tasks = (\<lambda>p. ([\<lparr>ID = 8, Name = ''t''\<rparr>], 3, None)),
      Sections = (\<lambda>p. ([\<lparr>ID = 9, Name = ''s''\<rparr>], 4, None))\<rparr>"

definition date_2012_03_26 :: Date where
  "date_2012_03_26 = Date 2012 3 26 0 0 0 0 UTC"


section \<open>The listing functions: errors, empty results, the single call\<close>

lemma foldl_Printf_stdout:
  "stdout (foldl (\<lambda>w x. Printf w (f x)) w xs) = stdout w @ concat (map f xs)"
  by (induction xs arbitrary: w) (simp_all add: Printf_def)


text \<open>
  Claim C4. Whenever the list call of a listing function returns an error, the function
  returns that very error and writes nothing to standard output. This holds for each of
  \<open>ListWorkspaces\<close>, \<open>ListProjects\<close>, \<open>ListTasks\<close> and \<open>ListSections\<close>, whatever
  results and token come with the error.
\<close>

theorem listing_error_unchanged:
  "(Workspaces c = (ws, np1, Some e) \<longrightarrow>
      fst (ListWorkspaces fmt_s tbl c w) = Some e
      \<and> stdout (snd (ListWorkspaces fmt_s tbl c w)) = stdout w)
   \<and> (Projects c wk = (ps, np2, Some e) \<longrightarrow>
      fst (ListProjects fmt_s tbl c wk w) = Some e
      \<and> stdout (snd (ListProjects fmt_s tbl c wk w)) = stdout w)
   \<and> (Tasks c p = (ts, np3, Some e) \<longrightarrow>
      fst (ListTasks fmt_s tbl c p w) = Some e
      \<and> stdout (snd (ListTasks fmt_s tbl c p w)) = stdout w)
   \<and> (Sections c p = (ss, np4, Some e) \<longrightarrow>
      fst (ListSections fmt_s tbl c p w) = Some e
      \<and> stdout (snd (ListSections fmt_s tbl c p w)) = stdout w)"
  by (simp add: ListWorkspaces_def ListProjects_def ListTasks_def ListSections_def issue_def)

theorem listing_error_unchanged_witness:
  "Workspaces failing_client = ([acme], 0, Some ''boom'')
   \<and> fst (ListWorkspaces fmt_s_string no_table failing_client w0) = Some ''boom''
   \<and> stdout (snd (ListWorkspaces fmt_s_string no_table failing_client w0)) = stdout w0
   \<and> Projects failing_client acme = ([plan], 0, Some ''boom'')
   \<and> fst (ListProjects fmt_s_string no_table failing_client acme w0) = Some ''boom''
   \<and> stdout (snd (ListProjects fmt_s_string no_table failing_client acme w0)) = stdout w0
   \<and> Tasks failing_client plan = ([plan], 0, Some ''boom'')
   \<and> fst (ListTasks fmt_s_string no_table failing_client plan w0) = Some ''boom''
   \<and> stdout (snd (ListTasks fmt_s_string no_table failing_client plan w0)) = stdout w0
   \<and> Sections failing_client plan = ([plan], 0, Some ''boom'')
   \<and> fst (ListSections fmt_s_string no_table failing_client plan w0) = Some ''boom''
   \<and> stdout (snd (ListSections fmt_s_string no_table failing_client plan w0)) = stdout w0"
  using listing_error_unchanged [of failing_client "[acme]" 0 "''boom''" fmt_s_string no_table w0
      acme "[plan]" 0 plan "[plan]" 0 "[plan]" 0]
  by (simp add: failing_client_def)

text \<open>
  Claim C5. When the list call returns no results and no error, the listing function
  writes nothing to standard output and returns no error. This holds for \<open>ListTasks\<close>
  and equally for the three other listing functions.
\<close>

theorem listing_empty_prints_nothing:
  "(Tasks c p = ([], np3, None) \<longrightarrow>
      fst (ListTasks fmt_s tbl c p w) = None
      \<and> stdout (snd (ListTasks fmt_s tbl c p w)) = stdout w)
   \<and> (Workspaces c = ([], np1, None) \<longrightarrow>
      fst (ListWorkspaces fmt_s tbl c w) = None
      \<and> stdout (snd (ListWorkspaces fmt_s tbl c w)) = stdout w)
   \<and> (Projects c wk = ([], np2, None) \<longrightarrow>
      fst (ListProjects fmt_s tbl c wk w) = None
      \<and> stdout (snd (ListProjects fmt_s tbl c wk w)) = stdout w)
   \<and> (Sections c p = ([], np4, None) \<longrightarrow>
      fst (ListSections fmt_s tbl c p w) = None
      \<and> stdout (snd (ListSections fmt_s tbl c p w)) = stdout w)"
  by (simp add: ListWorkspaces_def ListProjects_def ListTasks_def ListSections_def issue_def)

theorem listing_empty_prints_nothing_witness:
  "Tasks empty_client plan = ([], 0, None)
   \<and> fst (ListTasks fmt_s_string no_table empty_client plan w0) = None
   \<and> stdout (snd (ListTasks fmt_s_string no_table empty_client plan w0)) = stdout w0
   \<and> Workspaces empty_client = ([], 0, None)
   \<and> fst (ListWorkspaces fmt_s_string no_table empty_client w0) = None
   \<and> stdout (snd (ListWorkspaces fmt_s_string no_table empty_client w0)) = stdout w0
   \<and> Projects empty_client acme = ([], 0, None)
   \<and> fst (ListProjects fmt_s_string no_table empty_client acme w0) = None
   \<and> stdout (snd (ListProjects fmt_s_string no_table empty_client acme w0)) = stdout w0
   \<and> Sections empty_client plan = ([], 0, None)
   \<and> fst (ListSections fmt_s_string no_table empty_client plan w0) = None
   \<and> stdout (snd (ListSections fmt_s_string no_table empty_client plan w0)) = stdout w0"
  using listing_empty_prints_nothing [of empty_client plan 0 fmt_s_string no_table w0 0 acme 0 0]
  by (simp add: empty_client_def)

section \<open>The single list call\<close>












section \<open>Quoted names stay on one line\<close>

lemma char_of_newline_iff: "char_of (n::nat) = CHR 0x0A \<longleftrightarrow> n mod 256 = 10"
proof -
  have "char_of n = CHR 0x0A \<longleftrightarrow> (of_char (char_of n) :: nat) = of_char (CHR 0x0A)"
    by (metis char_of_char)
  then show ?thesis by (simp add: of_char_of)
qed

lemma hexdigits_no_newline: "CHR 0x0A \<notin> set (hexdigits n r)"
proof
  assume "CHR 0x0A \<in> set (hexdigits n r)"
  then obtain i where i: "lowerhex ! (r div 16 ^ i mod 16) = CHR 0x0A"
    by (auto simp: hexdigits_def)
  have "length lowerhex = 16" by (simp add: lowerhex_def)
  then have "lowerhex ! (r div 16 ^ i mod 16) \<in> set lowerhex" by (intro nth_mem) simp
  moreover have "CHR 0x0A \<notin> set lowerhex" by (simp add: lowerhex_def)
  ultimately show False using i by simp
qed

lemma EncodeRune_no_newline:
  assumes "r \<noteq> 10"
  shows "CHR 0x0A \<notin> set (EncodeRune r)"
proof -
  define r' where "r' = (if 0x10FFFF < r \<or> (0xD800 \<le> r \<and> r \<le> 0xDFFF) then RuneError else r)"
  have r': "r' \<noteq> 10" "r' \<le> 0x10FFFF" using assms by (auto simp: r'_def RuneError_def)
  have "CHR 0x0A \<notin> set (if r' < 0x80 then [char_of r']
         else if r' < 0x800 then [char_of (0xC0 + r' div 0x40), char_of (0x80 + r' mod 0x40)]
         else if r' < 0x10000
         then [char_of (0xE0 + r' div 0x1000), char_of (0x80 + r' div 0x40 mod 0x40),
               char_of (0x80 + r' mod 0x40)]
         else [char_of (0xF0 + r' div 0x40000), char_of (0x80 + r' div 0x1000 mod 0x40),
               char_of (0x80 + r' div 0x40 mod 0x40), char_of (0x80 + r' mod 0x40)])"
    using r' by (auto simp: char_of_newline_iff eq_commute [of "CHR 0x0A"])
  then show ?thesis unfolding EncodeRune_def Let_def r'_def [symmetric] .
qed


lemma appendEscapedRune_no_newline: "CHR 0x0A \<notin> set (appendEscapedRune tbl r)"
proof -
  have p: "IsPrint tbl r \<Longrightarrow> r \<noteq> 10" by (auto simp: IsPrint_def)
  have q: "char_of r \<noteq> CHR 0x0A" if "r = 0x22 \<or> r = 0x5C"
    using that by (auto simp: char_of_newline_iff)
  show ?thesis
    using p q
    by (auto simp: appendEscapedRune_def hexdigits_no_newline EncodeRune_no_newline
        eq_commute [of "CHR 0x0A"])
qed

lemma appendQuoted_no_newline: "CHR 0x0A \<notin> set (appendQuoted tbl s)"
proof (induction tbl s rule: appendQuoted.induct)
  case (1 tbl)
  then show ?case by simp
next
  case (2 tbl c s)
  obtain r width where rw: "(if 0x80 \<le> byte c then DecodeRune (c # s) else (byte c, 1)) = (r, width)"
    by (cases "if 0x80 \<le> byte c then DecodeRune (c # s) else (byte c, 1)")
  show ?case
  proof (cases "width = 1 \<and> r = RuneError")
    case True
    with "2.IH" rw show ?thesis
      by (auto simp: hexdigits_no_newline)
  next
    case False
    with "2.IH" rw show ?thesis
      by (auto simp: appendEscapedRune_no_newline)
  qed
qed

lemma Quote_no_newline: "CHR 0x0A \<notin> set (Quote tbl s)"
  by (simp add: Quote_def appendQuoted_no_newline)

lemma Quote_quoted: "\<exists>body. Quote tbl s = quoted body"
  by (simp add: Quote_def quoted_def)

section \<open>The lines that the listing functions print\<close>

lemma char_of_eq_iff_byte: "char_of (n::nat) = c \<longleftrightarrow> n mod 256 = byte c"
proof -
  have "char_of n = c \<longleftrightarrow> (of_char (char_of n) :: nat) = of_char c"
    by (metis char_of_char)
  then show ?thesis by (simp add: of_char_of byte_def)
qed

lemma ListWorkspaces_stdout:
  assumes "Workspaces c = (ws, np, None)"
  shows "stdout (snd (ListWorkspaces fmt_s tbl c w))
         = stdout w @ lines_text (map (\<lambda>x. line3 (workspace_label x) (fmt_s (ID x))
                                              (Quote tbl (Name x))) ws)"
proof -
  have "stdout (foldl (\<lambda>w x. Printf w
        (line3 (workspace_label x) (fmt_s (ID x)) (Quote tbl (Name x)) @ [CHR 0x0A]))
        (issue w CallWorkspaces) ws)
      = stdout (issue w CallWorkspaces)
        @ concat (map (\<lambda>x. line3 (workspace_label x) (fmt_s (ID x)) (Quote tbl (Name x))
                              @ [CHR 0x0A]) ws)"
    by (rule foldl_Printf_stdout)
  moreover have "(\<lambda>w x. if IsOrganization x
         then Printf w (''Organization '' @ fmt_s (ID x) @ '' '' @ Quote tbl (Name x) @ [CHR 0x0A])
         else Printf w (''Workspace '' @ fmt_s (ID x) @ '' '' @ Quote tbl (Name x) @ [CHR 0x0A]))
      = (\<lambda>w x. Printf w
          (line3 (workspace_label x) (fmt_s (ID x)) (Quote tbl (Name x)) @ [CHR 0x0A]))"
    by (intro ext) (simp add: line3_def workspace_label_def)
  ultimately show ?thesis using assms
    by (simp add: ListWorkspaces_def issue_def lines_text_def comp_def)
qed

lemma ListProjects_stdout:
  assumes "Projects c wk = (ps, np, None)"
  shows "stdout (snd (ListProjects fmt_s tbl c wk w))
         = stdout w @ lines_text (map (\<lambda>x. ''Project '' @ fmt_s (ID x) @ '': ''
                                              @ Quote tbl (Name x)) ps)"
  using assms
  by (simp add: ListProjects_def issue_def lines_text_def comp_def foldl_Printf_stdout)

lemma ListTasks_stdout:
  assumes "Tasks c p = (ts, np, None)"
  shows "stdout (snd (ListTasks fmt_s tbl c p w))
         = stdout w @ lines_text (map (\<lambda>x. line3 ''Task'' (fmt_s (ID x)) (Quote tbl (Name x))) ts)"
  using assms
  by (simp add: ListTasks_def issue_def lines_text_def comp_def foldl_Printf_stdout line3_def)

lemma ListSections_stdout:
  assumes "Sections c p = (ss, np, None)"
  shows "stdout (snd (ListSections fmt_s tbl c p w))
         = stdout w @ lines_text (map (\<lambda>x. line3 ''Section'' (fmt_s (ID x)) (Quote tbl (Name x))) ss)"
  using assms
  by (simp add: ListSections_def issue_def lines_text_def comp_def foldl_Printf_stdout line3_def)

text \<open>
  Claim C3. When the client's \<open>Workspaces\<close> call returns the workspaces \<open>ws\<close> without an
  error, \<open>ListWorkspaces\<close> returns no error, and what it appends to standard output is
  one newline-terminated line per workspace, in the order of \<open>ws\<close>; the line of a
  workspace begins with the label \<open>Organization\<close> when its \<open>IsOrganization\<close> is true and
  with \<open>Workspace\<close> otherwise, followed by its ID and its quoted name. No such line
  contains a newline of its own, as long as the text of the ID has none.
\<close>

theorem ListWorkspaces_one_line_each:
  assumes "Workspaces c = (ws, np, None)"
    and "\<forall>x \<in> set ws. CHR 0x0A \<notin> set (fmt_s (ID x))"
  shows "fst (ListWorkspaces fmt_s tbl c w) = None
    \<and> stdout (snd (ListWorkspaces fmt_s tbl c w))
        = stdout w @ lines_text (map (\<lambda>x. line3 (workspace_label x) (fmt_s (ID x))
                                             (Quote tbl (Name x))) ws)
    \<and> (\<forall>x \<in> set ws. CHR 0x0A \<notin> set (line3 (workspace_label x) (fmt_s (ID x))
                                             (Quote tbl (Name x))))"
proof -
  have "fst (ListWorkspaces fmt_s tbl c w) = None"
    using assms(1) by (simp add: ListWorkspaces_def)
  moreover have "CHR 0x0A \<notin> set (line3 (workspace_label x) (fmt_s (ID x)) (Quote tbl (Name x)))"
    if "x \<in> set ws" for x
    using that assms(2) Quote_no_newline [of tbl "Name x"]
    by (auto simp: line3_def workspace_label_def)
  ultimately show ?thesis using ListWorkspaces_stdout [OF assms(1)] by blast
qed

theorem ListWorkspaces_one_line_each_witness:
  "Workspaces demo_client = ([acme, home], 1, None)
   \<and> CHR 0x0A \<notin> set (fmt_s_string (ID acme))
   \<and> CHR 0x0A \<notin> set (fmt_s_string (ID home))
   \<and> fst (ListWorkspaces fmt_s_string no_table demo_client w0) = None
   \<and> stdout (snd (ListWorkspaces fmt_s_string no_table demo_client w0))
       = stdout w0 @ ''Organization 1 '' @ quoted ''Acme'' @ [CHR 0x0A]
                   @ ''Workspace 2 '' @ quoted ''Home'' @ [CHR 0x0A]"
proof -
  have a: "Workspaces demo_client = ([acme, home], 1, None)"
    by (simp add: demo_client_def)
  have b: "\<forall>x \<in> set [acme, home]. CHR 0x0A \<notin> set (fmt_s_string (ID x))"
    by (simp add: acme_def home_def fmt_s_string_def)
  have q: "Quote no_table ''Acme'' = quoted ''Acme''" "Quote no_table ''Home'' = quoted ''Home''"
    by (simp_all add: Quote_def quoted_def byte_def appendEscapedRune_def IsPrint_def
        RuneError_def EncodeRune_def char_of_eq_iff_byte)
  have o: "lines_text (map (\<lambda>x. line3 (workspace_label x) (fmt_s_string (ID x))
                                     (Quote no_table (Name x))) [acme, home])
           = ''Organization 1 '' @ quoted ''Acme'' @ [CHR 0x0A]
              @ ''Workspace 2 '' @ quoted ''Home'' @ [CHR 0x0A]"
    by (simp add: lines_text_def line3_def workspace_label_def acme_def home_def
        fmt_s_string_def q)
  have c: "CHR 0x0A \<notin> set (fmt_s_string (ID acme))"
    "CHR 0x0A \<notin> set (fmt_s_string (ID home))"
    using b by simp_all
  show ?thesis
    using ListWorkspaces_one_line_each [OF a b, of no_table w0] a c
    unfolding o by simp
qed

lemma fmt_s_int64_digit:
  "fmt_s_int64 1 = ''%!s(int64=1)''" "fmt_s_int64 2 = ''%!s(int64=2)''"
  "fmt_s_int64 7 = ''%!s(int64=7)''" "fmt_s_int64 8 = ''%!s(int64=8)''"
  "fmt_s_int64 9 = ''%!s(int64=9)''"
  by (simp_all add: fmt_s_int64_def FormatInt_def decimal.simps digit_char_def
      char_of_eq_iff_byte byte_def)

lemma Quote_examples:
  "Quote tbl ''Acme'' = quoted ''Acme''" "Quote tbl ''Home'' = quoted ''Home''"
  "Quote tbl ''x'' = quoted ''x''" "Quote tbl ''t'' = quoted ''t''"
  "Quote tbl ''s'' = quoted ''s''"
  by (simp_all add: Quote_def quoted_def byte_def appendEscapedRune_def IsPrint_def
      RuneError_def EncodeRune_def char_of_eq_iff_byte)

text \<open>
  Claim C7 says that every printed line is \<open><TypeLabel> <ID> <Quoted Name>\<close>: the label,
  a space, the identifier, a space, the quoted name, and nothing else. The code does not
  print that. The identifier is the \<open>int64\<close> of \<open>HasID\<close> and all four functions pass it
  to the verb \<open>%s\<close>, so where the identifier should stand \<open>fmt\<close> writes its bad-verb
  text: the task with identifier 8 and name \<open>t\<close> is printed as \<open>Task %!s(int64=8) "t"\<close>,
  not as \<open>Task 8 "t"\<close>. \<open>ListProjects\<close> moreover writes a colon after the identifier,
  which its three siblings do not: the project with identifier 7 and name \<open>x\<close> is
  printed as \<open>Project %!s(int64=7): "x"\<close>.
\<close>

theorem listing_lines_bad_verb:
  "stdout (snd (ListWorkspaces fmt_s_int64 tbl int64_client w0))
     = stdout w0 @ ''Organization %!s(int64=1) '' @ quoted ''Acme'' @ [CHR 0x0A]
                 @ ''Workspace %!s(int64=2) '' @ quoted ''Home'' @ [CHR 0x0A]
   \<and> stdout (snd (ListProjects fmt_s_int64 tbl int64_client acme_org w0))
     = stdout w0 @ ''Project %!s(int64=7): '' @ quoted ''x'' @ [CHR 0x0A]
   \<and> stdout (snd (ListTasks fmt_s_int64 tbl int64_client plan_project w0))
     = stdout w0 @ ''Task %!s(int64=8) '' @ quoted ''t'' @ [CHR 0x0A]
   \<and> stdout (snd (ListSections fmt_s_int64 tbl int64_client plan_project w0))
     = stdout w0 @ ''Section %!s(int64=9) '' @ quoted ''s'' @ [CHR 0x0A]
   \<and> stdout (snd (ListProjects fmt_s_int64 tbl int64_client acme_org w0))
     \<noteq> stdout w0 @ lines_text [line3 ''Project'' ''7'' (quoted ''x'')]
   \<and> stdout (snd (ListTasks fmt_s_int64 tbl int64_client plan_project w0))
     \<noteq> stdout w0 @ lines_text [line3 ''Task'' ''8'' (quoted ''t'')]"
proof -
  have c: "Workspaces int64_client = ([acme_org, home_ws], 1, None)"
    "Projects int64_client acme_org = ([plan_project], 2, None)"
    "Tasks int64_client plan_project = ([\<lparr>ID = 8, Name = ''t''\<rparr>], 3, None)"
    "Sections int64_client plan_project = ([\<lparr>ID = 9, Name = ''s''\<rparr>], 4, None)"
    by (simp_all add: int64_client_def)
  have 1: "stdout (snd (ListWorkspaces fmt_s_int64 tbl int64_client w0))
     = stdout w0 @ ''Organization %!s(int64=1) '' @ quoted ''Acme'' @ [CHR 0x0A]
                 @ ''Workspace %!s(int64=2) '' @ quoted ''Home'' @ [CHR 0x0A]"
    unfolding ListWorkspaces_stdout [OF c(1)]
    by (simp add: lines_text_def line3_def workspace_label_def acme_org_def home_ws_def
        fmt_s_int64_digit Quote_examples)
  have 2: "stdout (snd (ListProjects fmt_s_int64 tbl int64_client acme_org w0))
     = stdout w0 @ ''Project %!s(int64=7): '' @ quoted ''x'' @ [CHR 0x0A]"
    unfolding ListProjects_stdout [OF c(2)]
    by (simp add: lines_text_def plan_project_def fmt_s_int64_digit Quote_examples)
  have 3: "stdout (snd (ListTasks fmt_s_int64 tbl int64_client plan_project w0))
     = stdout w0 @ ''Task %!s(int64=8) '' @ quoted ''t'' @ [CHR 0x0A]"
    unfolding ListTasks_stdout [OF c(3)]
    by (simp add: lines_text_def line3_def fmt_s_int64_digit Quote_examples)
  have 4: "stdout (snd (ListSections fmt_s_int64 tbl int64_client plan_project w0))
     = stdout w0 @ ''Section %!s(int64=9) '' @ quoted ''s'' @ [CHR 0x0A]"
    unfolding ListSections_stdout [OF c(4)]
    by (simp add: lines_text_def line3_def fmt_s_int64_digit Quote_examples)
  have 5: "stdout (snd (ListProjects fmt_s_int64 tbl int64_client acme_org w0))
     \<noteq> stdout w0 @ lines_text [line3 ''Project'' ''7'' (quoted ''x'')]"
    unfolding 2 by (simp add: lines_text_def line3_def quoted_def)
  have 6: "stdout (snd (ListTasks fmt_s_int64 tbl int64_client plan_project w0))
     \<noteq> stdout w0 @ lines_text [line3 ''Task'' ''8'' (quoted ''t'')]"
    unfolding 3 by (simp add: lines_text_def line3_def quoted_def)
  from 1 2 3 4 5 6 show ?thesis by blast
qed

section \<open>The Date codec: totality of encoding, atomicity of decoding\<close>

text \<open>
  Claim C9. \<open>MarshalJSON\<close> never returns an error: for every \<open>Date\<close> value, whatever its
  words and its location (the zero value and the extreme values included), the result
  is a byte string and the error is nil.
\<close>

theorem MarshalJSON_total:
  "\<exists>b. MarshalJSON d = Inr b"
  by (simp add: MarshalJSON_def Marshal_string_def)

text \<open>
  Claim C10. \<open>UnmarshalJSON\<close> is atomic on failure: whenever it returns an error, the
  receiver is what it was before the call. The receiver is assigned only when both the
  JSON decoding of the string and the parse of the date have succeeded, and then it is
  the parsed time.
\<close>

theorem UnmarshalJSON_atomic:
  "(fst (UnmarshalJSON d v) \<noteq> None \<longrightarrow> snd (UnmarshalJSON d v) = d)
   \<and> (fst (UnmarshalJSON d v) = None \<longrightarrow>
        (\<exists>s t. Unmarshal_string v [] = (None, s) \<and> Parse s = Inr t
               \<and> snd (UnmarshalJSON d v) = t))"
  by (cases "Unmarshal_string v []")
     (auto simp: UnmarshalJSON_def split: option.splits sum.splits)

theorem UnmarshalJSON_atomic_witness:
  "fst (UnmarshalJSON date_2012_03_26 ''true'') = Some (UnmarshalTypeError ''bool'')
   \<and> snd (UnmarshalJSON date_2012_03_26 ''true'') = date_2012_03_26
   \<and> fst (UnmarshalJSON date_2012_03_26 (quoted ''2012-3-26''))
       = Some (ParseError ''2006-01-02'' ''2012-3-26'' ''01'' ''3-26'' [])
   \<and> snd (UnmarshalJSON date_2012_03_26 (quoted ''2012-3-26'')) = date_2012_03_26
   \<and> fst (UnmarshalJSON date_2012_03_26 (quoted ''1999-12-31'')) = None
   \<and> (\<exists>t. Parse ''1999-12-31'' = Inr t
          \<and> snd (UnmarshalJSON date_2012_03_26 (quoted ''1999-12-31'')) = t)"
proof -
  have a: "fst (UnmarshalJSON date_2012_03_26 ''true'') = Some (UnmarshalTypeError ''bool'')"
    by code_simp
  have b: "fst (UnmarshalJSON date_2012_03_26 (quoted ''2012-3-26''))
       = Some (ParseError ''2006-01-02'' ''2012-3-26'' ''01'' ''3-26'' [])"
    by code_simp
  have c: "fst (UnmarshalJSON date_2012_03_26 (quoted ''1999-12-31'')) = None"
    by code_simp
  have u: "Unmarshal_string (quoted ''1999-12-31'') [] = (None, ''1999-12-31'')"
    by code_simp
  show ?thesis
    using UnmarshalJSON_atomic [of date_2012_03_26 "''true''"]
      UnmarshalJSON_atomic [of date_2012_03_26 "quoted ''2012-3-26''"]
      UnmarshalJSON_atomic [of date_2012_03_26 "quoted ''1999-12-31''"] a b c u
    by auto
qed

section \<open>Digits\<close>

lemma byte_digit_char: "n < 10 \<Longrightarrow> byte (digit_char n) = 48 + n"
  by (simp add: byte_def digit_char_def of_char_of)

lemma digit_char_0: "digit_char 0 = CHR ''0''"
  by (simp add: digit_char_def char_of_eq_iff_byte byte_def)

lemma decimal_lt_10: "n < 10 \<Longrightarrow> decimal n = [digit_char n]"
  by (simp add: decimal.simps)

lemma decimal_lt_100: "10 \<le> n \<Longrightarrow> n < 100 \<Longrightarrow> decimal n = [digit_char (n div 10), digit_char (n mod 10)]"
  by (subst decimal.simps) (simp add: decimal_lt_10)

lemma decimal_lt_1000:
  assumes "100 \<le> n" "n < 1000"
  shows "decimal n = [digit_char (n div 100), digit_char (n div 10 mod 10), digit_char (n mod 10)]"
proof -
  have d: "n div 10 div 10 = n div 100" by arith
  have "decimal (n div 10) = [digit_char (n div 10 div 10), digit_char (n div 10 mod 10)]"
    using assms by (intro decimal_lt_100) arith+
  then show ?thesis using assms d by (subst decimal.simps) simp
qed

lemma decimal_lt_10000:
  assumes "1000 \<le> n" "n < 10000"
  shows "decimal n = [digit_char (n div 1000), digit_char (n div 100 mod 10),
                      digit_char (n div 10 mod 10), digit_char (n mod 10)]"
proof -
  have d: "n div 10 div 100 = n div 1000" "n div 10 div 10 = n div 100" by arith+
  have "decimal (n div 10) = [digit_char (n div 10 div 100), digit_char (n div 10 div 10 mod 10),
                              digit_char (n div 10 mod 10)]"
    using assms by (intro decimal_lt_1000) arith+
  then show ?thesis using assms d by (subst decimal.simps) simp
qed

lemma appendInt_2: "0 \<le> x \<Longrightarrow> x \<le> 99 \<Longrightarrow> appendInt b x 2 = b @ digits2 x"
proof -
  assume a: "0 \<le> x" "x \<le> 99"
  consider "nat x < 10" | "10 \<le> nat x" "nat x < 100" using a by linarith
  then show ?thesis
  proof cases
    case 1
    then show ?thesis using a
      by (simp add: appendInt_def digits2_def decimal_lt_10 digit_char_0)
  next
    case 2
    then show ?thesis using a
      by (simp add: appendInt_def digits2_def decimal_lt_100)
  qed
qed

lemma replicate_0: "replicate 3 c = [c, c, c]" "replicate 2 c = [c, c]"
  by (simp_all add: numeral_eq_Suc)

lemma appendInt_4: "0 \<le> x \<Longrightarrow> x \<le> 9999 \<Longrightarrow> appendInt b x 4 = b @ digits4 x"
proof -
  assume a: "0 \<le> x" "x \<le> 9999"
  consider "nat x < 10" | "10 \<le> nat x" "nat x < 100" | "100 \<le> nat x" "nat x < 1000"
    | "1000 \<le> nat x" "nat x < 10000" using a by linarith
  then show ?thesis
  proof cases
    case 1
    then show ?thesis using a
      by (simp add: appendInt_def digits4_def decimal_lt_10 digit_char_0 replicate_0)
  next
    case 2
    then show ?thesis using a
      by (simp add: appendInt_def digits4_def decimal_lt_100 digit_char_0 replicate_0)
  next
    case 3
    then show ?thesis using a
      by (simp add: appendInt_def digits4_def decimal_lt_1000 digit_char_0)
  next
    case 4
    then show ?thesis using a
      by (simp add: appendInt_def digits4_def decimal_lt_10000)
  qed
qed

section \<open>The calendar: from a date to the absolute time and back\<close>

lemma div_unique_int: "0 \<le> r \<Longrightarrow> r < k \<Longrightarrow> (k * q + r) div k = (q::int)"
  by (simp add: div_pos_pos_trivial)

lemma cut_cycle:
  fixes q r k :: int
  assumes "0 \<le> q" "q \<le> 3" "0 \<le> r" "r \<le> k" "r = k \<longrightarrow> q = 3" "0 < k"
  shows "(k * q + r) div k - drop_bit 2 ((k * q + r) div k) = q"
proof (cases "r = k")
  case True
  then have "k * q + r = k * 4" using assms by simp
  then have "(k * q + r) div k = 4" using assms by simp
  then show ?thesis using True assms by (simp add: drop_bit_eq_div)
next
  case False
  then have "(k * q + r) div k = q" using assms by (simp add: div_unique_int)
  then show ?thesis using assms by (simp add: drop_bit_eq_div)
qed

lemma time_constants:
  "secondsPerDay = 86400" "daysPer400Years = 146097" "daysPer100Years = 36524"
  "daysPer4Years = 1461" "secondsPerHour = 3600" "secondsPerMinute = 60"
  by (simp_all add: secondsPerDay_def secondsPerHour_def secondsPerMinute_def
      daysPer400Years_def daysPer100Years_def daysPer4Years_def)

lemma absYear_core:
  fixes a b c e yd tod :: int
  assumes "0 \<le> a" "0 \<le> b" "b \<le> 3" "0 \<le> c" "c \<le> 24" "0 \<le> e" "e \<le> 3"
    and "0 \<le> yd" "yd \<le> 365" "yd = 365 \<longrightarrow> e = 3 \<and> (c \<noteq> 24 \<or> b = 3)"
    and "0 \<le> tod" "tod < 86400"
  shows "absYear ((146097 * a + 36524 * b + 1461 * c + 365 * e + yd) * 86400 + tod)
         = (400 * a + 100 * b + 4 * c + e + absoluteZeroYear, yd)"
proof -
  define R3 where "R3 = 365 * e + yd"
  define R2 where "R2 = 1461 * c + R3"
  define R1 where "R1 = 36524 * b + R2"
  define D where "D = 146097 * a + R1"
  have R3: "0 \<le> R3" "R3 \<le> 1460" "R3 = 1460 \<longrightarrow> e = 3 \<and> yd = 365"
    using assms unfolding R3_def by auto
  have R3': "R3 < 1461" using R3 by simp
  have R2: "0 \<le> R2" "R2 \<le> 36524" "R2 = 36524 \<longrightarrow> b = 3"
    using assms R3 unfolding R2_def R3_def by auto
  have R1: "0 \<le> R1" "R1 < 146097"
    using assms R2 unfolding R1_def by auto
  have s0: "(D * 86400 + tod) div 86400 = D"
    using assms by (simp add: div_pos_pos_trivial)
  have s1: "D div 146097 = a"
    unfolding D_def using R1 by (rule div_unique_int)
  have s2: "R1 div 36524 - drop_bit 2 (R1 div 36524) = b"
    unfolding R1_def using assms R2 by (intro cut_cycle) auto
  have s3: "R2 div 1461 = c"
    unfolding R2_def using R3 R3' by (intro div_unique_int) auto
  have s4: "R3 div 365 - drop_bit 2 (R3 div 365) = e"
    unfolding R3_def using assms by (intro cut_cycle) auto
  have Deq: "146097 * a + 36524 * b + 1461 * c + 365 * e + yd = D"
    by (simp add: D_def R1_def R2_def R3_def)
  have e1: "D - 146097 * a = R1" by (simp add: D_def)
  have e2: "R1 - 36524 * b = R2" by (simp add: R1_def)
  have e3: "R2 - 1461 * c = R3" by (simp add: R2_def)
  have e4: "R3 - 365 * e = yd" by (simp add: R3_def)
  show ?thesis
    unfolding Deq absYear_def Let_def time_constants s0 s1 e1 s2 e2 s3 e3 s4 e4 ..
qed

lemma year_split:
  fixes y :: int
  assumes "0 \<le> y"
  obtains a b c e where "0 \<le> a" "0 \<le> b" "b \<le> 3" "0 \<le> c" "c \<le> 24" "0 \<le> e" "e \<le> 3"
    "y = 400 * a + 100 * b + 4 * c + e"
    "y div 400 = a" "(y - 400 * a) div 100 = b" "(y - 400 * a - 100 * b) div 4 = c"
proof -
  define a where "a = y div 400"
  define r1 where "r1 = y mod 400"
  define b where "b = r1 div 100"
  define r2 where "r2 = r1 mod 100"
  define c where "c = r2 div 4"
  define e where "e = r2 mod 4"
  have y: "y = 400 * a + r1" by (simp add: a_def r1_def)
  have r1: "r1 = 100 * b + r2" by (simp add: b_def r2_def)
  have r2: "r2 = 4 * c + e" by (simp add: c_def e_def)
  have b1: "0 \<le> r1" "r1 < 400" by (simp_all add: r1_def)
  have b2: "0 \<le> r2" "r2 < 100" by (simp_all add: r2_def)
  have b3: "0 \<le> e" "e < 4" by (simp_all add: e_def)
  have "0 \<le> a" using assms by (simp add: a_def)
  moreover have "0 \<le> b" "b \<le> 3" using b1 by (simp_all add: b_def)
  moreover have "0 \<le> c" "c \<le> 24" using b2 by (simp_all add: c_def)
  moreover have "0 \<le> e" "e \<le> 3" using b3 by simp_all
  moreover have "y = 400 * a + 100 * b + 4 * c + e" using y r1 r2 by simp
  moreover have "y div 400 = a" by (simp add: a_def)
  moreover have "(y - 400 * a) div 100 = b" using y by (simp add: b_def)
  moreover have "(y - 400 * a - 100 * b) div 4 = c" using y r1 by (simp add: c_def)
  ultimately show thesis by (rule that)
qed

lemma mod_top: "0 < v \<Longrightarrow> v \<le> k \<Longrightarrow> (v mod k = 0 \<longleftrightarrow> v = (k::int))"
  by (cases "v = k") (simp_all add: mod_pos_pos_trivial)

lemma isLeap_split:
  fixes a b c e :: int
  assumes "0 \<le> b" "b \<le> 3" "0 \<le> c" "c \<le> 24" "0 \<le> e" "e \<le> 3"
  shows "isLeap (400 * a + 100 * b + 4 * c + e + absoluteZeroYear)
         \<longleftrightarrow> e = 3 \<and> (c \<noteq> 24 \<or> b = 3)"
proof -
  define year where "year = 400 * a + 100 * b + 4 * c + e + absoluteZeroYear"
  have y4: "year = 4 * (100 * a + 25 * b + c - 73069255600) + (e + 1)"
    and y100: "year = 100 * (4 * a + b - 2922770224) + (4 * c + e + 1)"
    and y400: "year = 400 * (a - 730692556) + (100 * b + 4 * c + e + 1)"
    by (simp_all add: year_def absoluteZeroYear_def)
  have m4: "year mod 4 = (e + 1) mod 4"
    by (subst y4) (simp only: mod_mult_self4)
  have m100: "year mod 100 = (4 * c + e + 1) mod 100"
    by (subst y100) (simp only: mod_mult_self4)
  have m400: "year mod 400 = (100 * b + 4 * c + e + 1) mod 400"
    by (subst y400) (simp only: mod_mult_self4)
  have "(e + 1) mod 4 = 0 \<longleftrightarrow> e + 1 = 4"
    using assms by (intro mod_top) simp_all
  moreover have "(4 * c + e + 1) mod 100 = 0 \<longleftrightarrow> 4 * c + e + 1 = 100"
    using assms by (intro mod_top) simp_all
  moreover have "(100 * b + 4 * c + e + 1) mod 400 = 0 \<longleftrightarrow> 100 * b + 4 * c + e + 1 = 400"
    using assms by (intro mod_top) simp_all
  moreover have "e + 1 = 4 \<longleftrightarrow> e = 3" by linarith
  moreover have "4 * c + e + 1 = 100 \<longleftrightarrow> c = 24 \<and> e = 3" using assms by linarith
  moreover have "100 * b + 4 * c + e + 1 = 400 \<longleftrightarrow> b = 3 \<and> c = 24 \<and> e = 3"
    using assms by linarith
  ultimately show ?thesis
    unfolding year_def [symmetric] isLeap_def m4 m100 m400 by auto
qed


lemma daysSinceEpoch_cycles:
  assumes "absoluteZeroYear \<le> year" "year - absoluteZeroYear < 2 ^ 64"
  obtains a b c e where "0 \<le> a" "0 \<le> b" "b \<le> 3" "0 \<le> c" "c \<le> 24" "0 \<le> e" "e \<le> 3"
    "year = 400 * a + 100 * b + 4 * c + e + absoluteZeroYear"
    "daysSinceEpoch year = 146097 * a + 36524 * b + 1461 * c + 365 * e"
proof -
  define y where "y = year - absoluteZeroYear"
  have y0: "0 \<le> y" using assms by (simp add: y_def)
  from year_split [OF y0] obtain a b c e where
    s: "0 \<le> a" "0 \<le> b" "b \<le> 3" "0 \<le> c" "c \<le> 24" "0 \<le> e" "e \<le> 3"
      "y = 400 * a + 100 * b + 4 * c + e"
    and d: "y div 400 = a" "(y - 400 * a) div 100 = b" "(y - 400 * a - 100 * b) div 4 = c"
    by blast
  have m: "(year - absoluteZeroYear) mod 2 ^ 64 = y"
    using assms y0 by (simp add: y_def mod_pos_pos_trivial)
  have e: "y - 400 * a - 100 * b - 4 * c = e" using s by simp
  have D: "daysSinceEpoch year = 146097 * a + 36524 * b + 1461 * c + 365 * e"
    unfolding daysSinceEpoch_def Let_def m d e time_constants ..
  have year: "year = 400 * a + 100 * b + 4 * c + e + absoluteZeroYear"
    using s by (simp add: y_def)
  show thesis using s(1-7) year D by (rule that)
qed

lemma absYear_daysSinceEpoch:
  assumes y: "absoluteZeroYear \<le> year" "year - absoluteZeroYear < 2 ^ 64"
    and yd: "0 \<le> yd" "yd \<le> 365" "yd = 365 \<longrightarrow> isLeap year"
    and tod: "0 \<le> tod" "tod < 86400"
  shows "absYear ((daysSinceEpoch year + yd) * 86400 + tod) = (year, yd)"
proof -
  from daysSinceEpoch_cycles [OF y] obtain a b c e where
    s: "0 \<le> a" "0 \<le> b" "b \<le> 3" "0 \<le> c" "c \<le> 24" "0 \<le> e" "e \<le> 3"
    and year: "year = 400 * a + 100 * b + 4 * c + e + absoluteZeroYear"
    and D: "daysSinceEpoch year = 146097 * a + 36524 * b + 1461 * c + 365 * e"
    by blast
  have "yd = 365 \<longrightarrow> e = 3 \<and> (c \<noteq> 24 \<or> b = 3)"
    using yd(3) isLeap_split [of b c e a] s unfolding year by blast
  from absYear_core [OF s(1-7) yd(1,2) this tod]
  have "absYear ((daysSinceEpoch year + yd) * 86400 + tod)
        = (400 * a + 100 * b + 4 * c + e + absoluteZeroYear, yd)"
    unfolding D .
  then show ?thesis unfolding year [symmetric] .
qed

lemma daysSinceEpoch_bounds:
  assumes "absoluteZeroYear \<le> year" "year - absoluteZeroYear < 2 ^ 64"
  shows "0 \<le> daysSinceEpoch year" "daysSinceEpoch year \<le> 366 * (year - absoluteZeroYear)"
proof -
  from daysSinceEpoch_cycles [OF assms] obtain a b c e where
    s: "0 \<le> a" "0 \<le> b" "b \<le> 3" "0 \<le> c" "c \<le> 24" "0 \<le> e" "e \<le> 3"
    and year: "year = 400 * a + 100 * b + 4 * c + e + absoluteZeroYear"
    and D: "daysSinceEpoch year = 146097 * a + 36524 * b + 1461 * c + 365 * e"
    by blast
  show "0 \<le> daysSinceEpoch year" using s D by simp
  show "daysSinceEpoch year \<le> 366 * (year - absoluteZeroYear)" using s D year by simp
qed

section \<open>The month and the day of the month\<close>

lemma daysBefore_nth:
  "daysBefore ! 0 = 0" "daysBefore ! 1 = 31" "daysBefore ! 2 = 59" "daysBefore ! 3 = 90"
  "daysBefore ! 4 = 120" "daysBefore ! 5 = 151" "daysBefore ! 6 = 181" "daysBefore ! 7 = 212"
  "daysBefore ! 8 = 243" "daysBefore ! 9 = 273" "daysBefore ! 10 = 304" "daysBefore ! 11 = 334"
  "daysBefore ! 12 = 365" "daysBefore ! Suc 0 = 31"
  by (simp_all add: daysBefore_def)

lemma month_cases:
  fixes m :: int
  assumes "1 \<le> m" "m \<le> 12"
  obtains "m = 1" | "m = 2" | "m = 3" | "m = 4" | "m = 5" | "m = 6" | "m = 7" | "m = 8"
    | "m = 9" | "m = 10" | "m = 11" | "m = 12"
proof -
  have "m = 1 \<or> m = 2 \<or> m = 3 \<or> m = 4 \<or> m = 5 \<or> m = 6 \<or> m = 7 \<or> m = 8
    \<or> m = 9 \<or> m = 10 \<or> m = 11 \<or> m = 12" using assms by arith
  then show thesis using that by blast
qed

lemma div31: "31 * k \<le> x \<Longrightarrow> x < 31 * k + 31 \<Longrightarrow> x div 31 = (k::int)"
  using div_unique_int [of "x - 31 * k" 31 k] by simp

lemma monthEstimate_window:
  fixes m B E day :: int
  assumes m: "1 \<le> m"
    and B: "daysBefore ! nat (m - 1) = B" and E: "daysBefore ! nat m = E"
    and w: "31 * (m - 2) \<le> B" "E \<le> 31 * m"
    and day: "B \<le> day" "day < E"
  shows "monthEstimate day = (m, day - B + 1)"
proof (cases "31 * (m - 1) \<le> day")
  case True
  have k: "day div 31 = m - 1" using True day w by (intro div31) simp_all
  have n: "nat (m - 1 + 1) = nat m" by simp
  show ?thesis using day m unfolding monthEstimate_def Let_def k n E B by simp
next
  case False
  have k: "day div 31 = m - 2" using False day w by (intro div31) simp_all
  have n: "nat (m - 2 + 1) = nat (m - 1)" by simp
  show ?thesis using day m unfolding monthEstimate_def Let_def k n E B by simp
qed

lemma month_table:
  fixes m :: int
  assumes "1 \<le> m" "m \<le> 12"
  shows "31 * (m - 2) \<le> daysBefore ! nat (m - 1)" "daysBefore ! nat m \<le> 31 * m"
    "28 \<le> daysBefore ! nat m - daysBefore ! nat (m - 1)"
    "daysBefore ! nat m - daysBefore ! nat (m - 1) \<le> 31"
    "0 \<le> daysBefore ! nat (m - 1)" "daysBefore ! nat m \<le> 365"
    "m \<le> 2 \<longrightarrow> daysBefore ! nat m \<le> 59" "3 \<le> m \<longrightarrow> 59 \<le> daysBefore ! nat (m - 1)"
  using assms by (cases m rule: month_cases; simp add: daysBefore_nth)+

lemma monthEstimate_inverse:
  assumes "1 \<le> m" "m \<le> 12" "1 \<le> d" "d \<le> daysBefore ! nat m - daysBefore ! nat (m - 1)"
  shows "monthEstimate (daysBefore ! nat (m - 1) + (d - 1)) = (m, d)"
  using monthEstimate_window [OF assms(1) refl refl month_table(1,2) [OF assms(1,2)],
      of "daysBefore ! nat (m - 1) + (d - 1)"] assms(3,4)
  by simp


lemma monthDay_inverse:
  assumes m: "1 \<le> m" "m \<le> 12" and d: "1 \<le> d" "d \<le> daysIn m year"
  shows "monthDay year (daysBefore ! nat (m - 1) + (if isLeap year \<and> March \<le> m then 1 else 0)
                         + (d - 1)) = (m, d)"
proof -
  note t = month_table [OF m]
  show ?thesis
  proof (cases "isLeap year")
    case False
    then have "d \<le> daysBefore ! nat m - daysBefore ! nat (m - 1)"
      using d by (simp add: daysIn_def)
    from monthEstimate_inverse [OF m d(1) this] False show ?thesis
      by (simp add: monthDay_def)
  next
    case leap: True
    have "(m = 2 \<and> d = 29) \<or> (m = 2 \<and> d \<le> 28) \<or> m = 1 \<or> 3 \<le> m"
      using m d leap by (cases "m = 2") (auto simp: daysIn_def February_def)
    then consider "m = 2" "d = 29" | "m = 2" "d \<le> 28" | "m = 1" | "3 \<le> m"
      by blast
    then show ?thesis
    proof cases
      case 1
      then show ?thesis using leap
        by (simp add: monthDay_def March_def February_def daysBefore_nth)
    next
      case 2
      then have "d \<le> daysBefore ! nat m - daysBefore ! nat (m - 1)"
        by (simp add: daysBefore_nth)
      from monthEstimate_inverse [OF m d(1) this] 2 d(1) leap show ?thesis
        by (simp add: monthDay_def March_def daysBefore_nth)
    next
      case 3
      then have "d \<le> daysBefore ! nat m - daysBefore ! nat (m - 1)"
        using d by (simp add: daysIn_def February_def)
      from monthEstimate_inverse [OF m d(1) this] 3 d this leap show ?thesis
        by (simp add: monthDay_def March_def daysBefore_nth)
    next
      case 4
      then have dd: "d \<le> daysBefore ! nat m - daysBefore ! nat (m - 1)"
        using d by (simp add: daysIn_def February_def)
      have B: "59 \<le> daysBefore ! nat (m - 1)" using t(8) 4 by simp
      have "monthDay year (daysBefore ! nat (m - 1) + 1 + (d - 1))
            = monthEstimate (daysBefore ! nat (m - 1) + 1 + (d - 1) - 1)"
        using leap B d(1) by (simp add: monthDay_def)
      also have "daysBefore ! nat (m - 1) + 1 + (d - 1) - 1 = daysBefore ! nat (m - 1) + (d - 1)"
        by simp
      also note monthEstimate_inverse [OF m d(1) dd]
      finally show ?thesis using leap 4 by (simp add: March_def)
    qed
  qed
qed

lemma yday_bounds:
  assumes m: "1 \<le> m" "m \<le> 12" and d: "1 \<le> d" "d \<le> daysIn m year"
  defines "yd \<equiv> daysBefore ! nat (m - 1) + (if isLeap year \<and> March \<le> m then 1 else 0) + (d - 1)"
  shows "0 \<le> yd" "yd \<le> 365" "yd = 365 \<longrightarrow> isLeap year"
proof -
  note t = month_table [OF m]
  have dd: "d \<le> daysBefore ! nat m - daysBefore ! nat (m - 1) + (if isLeap year \<and> m = 2 then 1 else 0)"
    using d t(3) by (auto simp: daysIn_def February_def)
  show "0 \<le> yd" using t(5) d(1) by (simp add: yd_def)
  show "yd \<le> 365" using t(6,7) dd by (auto simp: yd_def March_def split: if_splits)
  show "yd = 365 \<longrightarrow> isLeap year" using t(6) dd by (auto simp: yd_def split: if_splits)
qed

section \<open>A calendar date as a time value\<close>

lemma norm_id: "0 \<le> lo \<Longrightarrow> lo < base \<Longrightarrow> norm hi lo base = (hi, lo)"
  by (simp add: norm_def)

lemma Date_in_range:
  assumes "1 \<le> m" "m \<le> 12"
  shows "Date y m d 0 0 0 0 UTC
         = \<lparr>wall = 0,
            ext = word_of_int ((daysSinceEpoch y + yday_of y m d) * 86400 + absoluteToInternal),
            loc = None\<rparr>"
proof -
  have n: "norm y (m - 1) 12 = (y, m - 1)" "norm 0 0 1000000000 = (0, 0)"
    "norm 0 0 60 = (0, 0)" "norm d 0 24 = (d, 0)"
    using assms by (simp_all add: norm_id)
  have l: "lookup UTC s = (0, - (2 ^ 63), 2 ^ 63 - 1)" for s
    by (simp add: lookup_def)
  show ?thesis
    unfolding Date_def Let_def n l time_constants
    by (simp add: norm_id yday_of_def internalToUnix_def)
qed

lemma abs_time_plain:
  "abs_time \<lparr>wall = 0, ext = word_of_int (a + absoluteToInternal), loc = None\<rparr> = word_of_int a"
  by (simp add: abs_time_def get_loc_def unixSec_def sec_def internalToUnix_def
      internalToAbsolute_def hasMonotonic_def)

lemma abs_time_Date:
  assumes "valid_date y m d"
  shows "uint (abs_time (Date y m d 0 0 0 0 UTC)) = (daysSinceEpoch y + yday_of y m d) * 86400"
proof -
  have v: "0 \<le> y" "y \<le> 9999" "1 \<le> m" "m \<le> 12" "1 \<le> d" "d \<le> daysIn m y"
    using assms by (simp_all add: valid_date_def)
  have z: "absoluteZeroYear \<le> y" "y - absoluteZeroYear < 2 ^ 64"
    using v by (simp_all add: absoluteZeroYear_def)
  note b = daysSinceEpoch_bounds [OF z]
  note yb = yday_bounds [OF v(3-6), folded yday_of_def]
  have "daysSinceEpoch y \<le> 366 * 292277032398"
    using b(2) v(2) by (simp add: absoluteZeroYear_def)
  then have r: "0 \<le> (daysSinceEpoch y + yday_of y m d) * 86400"
    "(daysSinceEpoch y + yday_of y m d) * 86400 < 2 ^ 64"
    using b(1) yb by simp_all
  show ?thesis
    unfolding Date_in_range [OF v(3,4)] abs_time_plain uint_word_of_int
    using r by (simp add: mod_pos_pos_trivial)
qed

lemma absDate_Date:
  assumes "valid_date y m d"
  shows "absDate (uint (abs_time (Date y m d 0 0 0 0 UTC))) = (y, m, d, yday_of y m d)"
proof -
  have v: "0 \<le> y" "y \<le> 9999" "1 \<le> m" "m \<le> 12" "1 \<le> d" "d \<le> daysIn m y"
    using assms by (simp_all add: valid_date_def)
  have z: "absoluteZeroYear \<le> y" "y - absoluteZeroYear < 2 ^ 64"
    using v by (simp_all add: absoluteZeroYear_def)
  note yb = yday_bounds [OF v(3-6), folded yday_of_def]
  have "absYear ((daysSinceEpoch y + yday_of y m d) * 86400 + 0) = (y, yday_of y m d)"
    using yb by (intro absYear_daysSinceEpoch z) simp_all
  then have a: "absYear ((daysSinceEpoch y + yday_of y m d) * 86400) = (y, yday_of y m d)"
    by simp
  have b: "monthDay y (yday_of y m d) = (m, d)"
    unfolding yday_of_def by (rule monthDay_inverse [OF v(3-6)])
  show ?thesis
    unfolding abs_time_Date [OF assms] absDate_def a by (simp add: b)
qed

section \<open>Every time value has a month from 1 to 12 and a day from 1 to 31\<close>

lemma cut_range:
  fixes x k :: int
  assumes k: "0 < k" and x: "0 \<le> x" "x \<le> 4 * k"
  defines "n \<equiv> x div k - drop_bit 2 (x div k)"
  shows "0 \<le> n" "n \<le> 3" "0 \<le> x - k * n" "x - k * n \<le> k"
    "x - k * n = k \<longrightarrow> n = 3 \<and> x = 4 * k"
proof -
  have c: "(n = 3 \<and> x = 4 * k) \<or> (0 \<le> n \<and> n \<le> 3 \<and> 0 \<le> x - k * n \<and> x - k * n < k)"
  proof (cases "x = 4 * k")
    case True
    then have "x div k = 4" using k by simp
    then show ?thesis using True by (simp add: n_def drop_bit_eq_div)
  next
    case False
    then have "x < k * 4" using x by simp
    have "x div k < 4"
    proof (rule ccontr)
      assume "\<not> x div k < 4"
      then have "k * 4 \<le> k * (x div k)" using k by (simp add: mult_left_mono)
      moreover have "k * (x div k) + x mod k = x" by simp
      moreover have "0 \<le> x mod k" using k by simp
      ultimately show False using \<open>x < k * 4\<close> by linarith
    qed
    have "0 \<le> x div k" using k x by (simp add: pos_imp_zdiv_nonneg_iff)
    with \<open>x div k < 4\<close> have "drop_bit 2 (x div k) = 0" by (simp add: drop_bit_eq_div)
    then have n: "n = x div k" by (simp add: n_def)
    have "x - k * (x div k) = x mod k" by (simp add: minus_mult_div_eq_mod)
    moreover have "0 \<le> x mod k" "x mod k < k" using k by simp_all
    ultimately have "0 \<le> x - k * n" "x - k * n < k" unfolding n by simp_all
    then show ?thesis using \<open>x div k < 4\<close> \<open>0 \<le> x div k\<close> n by simp
  qed
  show "0 \<le> n" "n \<le> 3" using c by auto
  show "0 \<le> x - k * n" using c k by auto
  show "x - k * n \<le> k" using c k by auto
  show "x - k * n = k \<longrightarrow> n = 3 \<and> x = 4 * k" using c by auto
qed


lemma absYear_range:
  assumes a: "0 \<le> a" and r: "absYear a = (year, yd)"
  shows "0 \<le> yd" "yd \<le> 365" "yd = 365 \<longrightarrow> isLeap year"
proof -
  define D where "D = a div 86400"
  define n1 where "n1 = D div 146097"
  define d1 where "d1 = D - 146097 * n1"
  define n2 where "n2 = d1 div 36524 - drop_bit 2 (d1 div 36524)"
  define d2 where "d2 = d1 - 36524 * n2"
  define n3 where "n3 = d2 div 1461"
  define d3 where "d3 = d2 - 1461 * n3"
  define n4 where "n4 = d3 div 365 - drop_bit 2 (d3 div 365)"
  define d4 where "d4 = d3 - 365 * n4"
  have "absYear a = (400 * n1 + 100 * n2 + 4 * n3 + n4 + absoluteZeroYear, d4)"
    unfolding absYear_def Let_def time_constants d4_def n4_def d3_def n3_def d2_def n2_def
      d1_def n1_def D_def ..
  with r have year: "year = 400 * n1 + 100 * n2 + 4 * n3 + n4 + absoluteZeroYear"
    and yd: "yd = d4" by simp_all
  have D: "0 \<le> D" using a by (simp add: D_def pos_imp_zdiv_nonneg_iff)
  have d1: "d1 = D mod 146097" by (simp add: d1_def n1_def minus_mult_div_eq_mod)
  have d1b: "0 \<le> d1" "d1 \<le> 4 * 36524" unfolding d1 by simp_all
  note c2 = cut_range [of 36524 d1, folded n2_def, folded d2_def, OF _ d1b]
  have d3m: "d3 = d2 mod 1461" by (simp add: d3_def n3_def minus_mult_div_eq_mod)
  have d2b: "0 \<le> d2" "d2 \<le> 36524" "d2 = 36524 \<longrightarrow> n2 = 3" using c2 by simp_all
  have n3: "0 \<le> n3" "n3 \<le> 24"
    using d2b by (simp_all add: n3_def pos_imp_zdiv_nonneg_iff)
  have d3b: "0 \<le> d3" "d3 \<le> 4 * 365" unfolding d3m by simp_all
  note c4 = cut_range [of 365 d3, folded n4_def, folded d4_def, OF _ d3b]
  have n2: "0 \<le> n2" "n2 \<le> 3" using c2 by simp_all
  have n4: "0 \<le> n4" "n4 \<le> 3" using c4 by simp_all
  show "0 \<le> yd" "yd \<le> 365" using c4 yd by simp_all
  show "yd = 365 \<longrightarrow> isLeap year"
  proof
    assume "yd = 365"
    then have e: "n4 = 3" "d3 = 1460" using c4 yd by simp_all
    have "n3 = 24 \<longrightarrow> n2 = 3"
    proof
      assume "n3 = 24"
      then have "d2 = 36524" using e by (simp add: d3_def)
      then show "n2 = 3" using d2b by simp
    qed
    then show "isLeap year"
      unfolding year using isLeap_split [OF n2 n3 n4, of n1] e by auto
  qed
qed

lemma monthDay_range:
  assumes "0 \<le> yd" "yd \<le> 365" "yd = 365 \<longrightarrow> isLeap year" "monthDay year yd = (m, d)"
  shows "1 \<le> m \<and> m \<le> 12 \<and> 1 \<le> d \<and> d \<le> 31"
proof (cases "isLeap year \<and> yd = 31 + 29 - 1")
  case True
  then show ?thesis using assms by (auto simp: monthDay_def February_def)
next
  case False
  define day where "day = (if isLeap year \<and> yd > 31 + 29 - 1 then yd - 1 else yd)"
  have day: "0 \<le> day" "day \<le> 364" using assms(1-3) by (auto simp: day_def)
  have md: "monthEstimate day = (m, d)"
    using assms(4) False by (auto simp: monthDay_def day_def split: if_splits)
  have "\<exists>k. 1 \<le> k \<and> k \<le> 12 \<and> daysBefore ! nat (k - 1) \<le> day \<and> day < daysBefore ! nat k"
  proof -
    consider "day < 31" | "31 \<le> day" "day < 59" | "59 \<le> day" "day < 90"
      | "90 \<le> day" "day < 120" | "120 \<le> day" "day < 151" | "151 \<le> day" "day < 181"
      | "181 \<le> day" "day < 212" | "212 \<le> day" "day < 243" | "243 \<le> day" "day < 273"
      | "273 \<le> day" "day < 304" | "304 \<le> day" "day < 334" | "334 \<le> day" "day < 365"
      using day by linarith
    then show ?thesis
    proof cases
      case 1 then show ?thesis using day by (intro exI [of _ 1]) (simp add: daysBefore_nth)
    next
      case 2 then show ?thesis by (intro exI [of _ 2]) (simp add: daysBefore_nth)
    next
      case 3 then show ?thesis by (intro exI [of _ 3]) (simp add: daysBefore_nth)
    next
      case 4 then show ?thesis by (intro exI [of _ 4]) (simp add: daysBefore_nth)
    next
      case 5 then show ?thesis by (intro exI [of _ 5]) (simp add: daysBefore_nth)
    next
      case 6 then show ?thesis by (intro exI [of _ 6]) (simp add: daysBefore_nth)
    next
      case 7 then show ?thesis by (intro exI [of _ 7]) (simp add: daysBefore_nth)
    next
      case 8 then show ?thesis by (intro exI [of _ 8]) (simp add: daysBefore_nth)
    next
      case 9 then show ?thesis by (intro exI [of _ 9]) (simp add: daysBefore_nth)
    next
      case 10 then show ?thesis by (intro exI [of _ 10]) (simp add: daysBefore_nth)
    next
      case 11 then show ?thesis by (intro exI [of _ 11]) (simp add: daysBefore_nth)
    next
      case 12 then show ?thesis by (intro exI [of _ 12]) (simp add: daysBefore_nth)
    qed
  qed
  then obtain k where k: "1 \<le> k" "k \<le> 12" "daysBefore ! nat (k - 1) \<le> day"
    "day < daysBefore ! nat k" by blast
  note t = month_table [OF k(1,2)]
  from monthEstimate_window [OF k(1) refl refl t(1,2) k(3,4)] md
  have "m = k" "d = day - daysBefore ! nat (k - 1) + 1" by simp_all
  then show ?thesis using k t(4) by simp
qed

lemma absDate_range:
  assumes "0 \<le> a" "absDate a = (y, m, d, yd)"
  shows "1 \<le> m \<and> m \<le> 12 \<and> 1 \<le> d \<and> d \<le> 31"
proof -
  obtain year yday where r: "absYear a = (year, yday)" by (cases "absYear a")
  obtain m' d' where md: "monthDay year yday = (m', d')" by (cases "monthDay year yday")
  from assms(2) r md have "m' = m" "d' = d" by (simp_all add: absDate_def)
  with monthDay_range [OF absYear_range [OF assms(1) r] md] show ?thesis by simp
qed

section \<open>Encoding a date\<close>

lemma htmlSafe_digit: "k < 10 \<Longrightarrow> htmlSafe (digit_char k)"
  by (auto simp: htmlSafe_def byte_digit_char digit_char_def char_of_eq_iff_byte byte_def)

lemma htmlSafe_decimal: "c \<in> set (decimal n) \<Longrightarrow> htmlSafe c"
proof (induction n rule: decimal.induct)
  case (1 n)
  show ?case
  proof (cases "n < 10")
    case True
    then show ?thesis using 1(2) by (simp add: decimal.simps [of n] htmlSafe_digit)
  next
    case False
    then show ?thesis using 1
      by (auto simp: decimal.simps [of n] htmlSafe_digit)
  qed
qed

lemma htmlSafe_appendInt:
  assumes "\<forall>c \<in> set b. htmlSafe c"
  shows "\<forall>c \<in> set (appendInt b x w). htmlSafe c"
proof -
  have "htmlSafe (CHR ''-'')" "htmlSafe (CHR ''0'')"
    by (simp_all add: htmlSafe_def byte_def)
  then show ?thesis using assms
    by (auto simp: appendInt_def Let_def htmlSafe_decimal)
qed

lemma htmlSafe_Format: "\<forall>c \<in> set (Format t). htmlSafe c"
proof -
  obtain y m d yd where a: "absDate (uint (abs_time t)) = (y, m, d, yd)"
    by (cases "absDate (uint (abs_time t))")
  have h: "htmlSafe (CHR ''-'')" by (simp add: htmlSafe_def byte_def)
  have 1: "\<forall>c \<in> set (appendInt [] y 4). htmlSafe c"
    by (rule htmlSafe_appendInt) simp
  have 2: "\<forall>c \<in> set (appendInt (appendInt [] y 4 @ ''-'') m 2). htmlSafe c"
    using 1 h by (intro htmlSafe_appendInt) auto
  have 3: "\<forall>c \<in> set (appendInt (appendInt (appendInt [] y 4 @ ''-'') m 2 @ ''-'') d 2). htmlSafe c"
    using 2 h by (intro htmlSafe_appendInt) auto
  show ?thesis using 3 by (simp add: Format_def a dateLayout_chunks_def)
qed

lemma appendString_safe: "\<forall>c \<in> set s. htmlSafe c \<Longrightarrow> appendString s = s"
  by (induction s) (auto simp: htmlSafe_def)

lemma MarshalJSON_Format: "MarshalJSON d = Inr (quoted (Format d))"
  by (simp add: MarshalJSON_def Marshal_string_def quoted_def appendString_safe htmlSafe_Format)

lemma Format_shape:
  assumes "absDate (uint (abs_time t)) = (y, m, d, yd)" "0 \<le> y" "y \<le> 9999"
  shows "Format t = yyyy_mm_dd y m d"
proof -
  have r: "1 \<le> m \<and> m \<le> 12 \<and> 1 \<le> d \<and> d \<le> 31"
    using absDate_range [OF _ assms(1)] by simp
  have "appendInt (appendInt (appendInt [] y 4 @ ''-'') m 2 @ ''-'') d 2 = yyyy_mm_dd y m d"
    using r assms(2,3) by (simp add: appendInt_4 appendInt_2 yyyy_mm_dd_def)
  then show ?thesis by (simp add: Format_def assms(1) dateLayout_chunks_def)
qed

lemma absDate_2012_03_26: "absDate (uint (abs_time date_2012_03_26)) = (2012, 3, 26, 85)"
proof -
  have "valid_date 2012 3 26"
    by (simp add: valid_date_def daysIn_def February_def daysBefore_nth)
  from absDate_Date [OF this] show ?thesis
    by (simp add: date_2012_03_26_def yday_of_def isLeap_def March_def daysBefore_nth)
qed

text \<open>
  Claim C8. For every \<open>Date\<close> value, \<open>MarshalJSON\<close> returns the JSON string (the text in
  double quotes, with no escapes) of the date formatted with the layout \<open>2006-01-02\<close>.
  Whenever the year of the value lies between 0 and 9999, that text is the pattern
  \<open>YYYY-MM-DD\<close>: four digits of the year, a hyphen, two digits of the month, a hyphen,
  two digits of the day, each zero-padded. In particular the date 2012-03-26 is encoded
  as the JSON string \<open>"2012-03-26"\<close>.
\<close>

theorem MarshalJSON_pattern:
  "MarshalJSON d = Inr (quoted (Format d))
   \<and> (absDate (uint (abs_time d)) = (y, m, dd, yd) \<and> 0 \<le> y \<and> y \<le> 9999
        \<longrightarrow> MarshalJSON d = Inr (quoted (yyyy_mm_dd y m dd)))
   \<and> MarshalJSON date_2012_03_26 = Inr (quoted ''2012-03-26'')"
proof -
  have e: "yyyy_mm_dd 2012 3 26 = ''2012-03-26''"
    by (simp add: yyyy_mm_dd_def digits4_def digits2_def digit_char_def char_of_eq_iff_byte
        byte_def)
  have "MarshalJSON date_2012_03_26 = Inr (quoted ''2012-03-26'')"
    using Format_shape [OF absDate_2012_03_26] by (simp add: MarshalJSON_Format e)
  then show ?thesis
    by (auto simp: MarshalJSON_Format Format_shape)
qed

theorem MarshalJSON_pattern_witness:
  "absDate (uint (abs_time date_2012_03_26)) = (2012, 3, 26, 85) \<and> (0::int) \<le> 2012
   \<and> (2012::int) \<le> 9999
   \<and> MarshalJSON date_2012_03_26 = Inr (quoted (yyyy_mm_dd 2012 3 26))
   \<and> yyyy_mm_dd 2012 3 26 = ''2012-03-26''"
proof -
  have e: "yyyy_mm_dd 2012 3 26 = ''2012-03-26''"
    by (simp add: yyyy_mm_dd_def digits4_def digits2_def digit_char_def char_of_eq_iff_byte
        byte_def)
  note t = MarshalJSON_pattern [of date_2012_03_26 2012 3 26 85, THEN conjunct2, THEN conjunct1]
  from t absDate_2012_03_26
  have "MarshalJSON date_2012_03_26 = Inr (quoted (yyyy_mm_dd 2012 3 26))" by simp
  then show ?thesis using absDate_2012_03_26 e by simp
qed

section \<open>What \<open>Parse\<close> accepts\<close>

lemma isDigit_0: "isDigit v 0 \<longleftrightarrow> (\<exists>c r. v = c # r \<and> is09 c)"
  by (cases v) (auto simp: isDigit_def is09_def)

lemma isDigit_1: "isDigit v (Suc 0) \<longleftrightarrow> (\<exists>c d r. v = c # d # r \<and> is09 d)"
  by (cases v; cases "tl v") (auto simp: isDigit_def is09_def)

lemma getnum_fixed:
  "getnum v True = Some (n, v') \<longleftrightarrow>
   (\<exists>c d. v = c # d # v' \<and> is09 c \<and> is09 d
          \<and> n = (int (byte c) - 48) * 10 + (int (byte d) - 48))"
  by (auto simp: getnum_def isDigit_0 isDigit_1)

lemma skip_dash: "skip v ''-'' = (v', ok) \<longleftrightarrow> (if v \<noteq> [] \<and> hd v = CHR ''-'' then v' = tl v \<and> ok else v' = v \<and> \<not> ok)"
  by (cases v) auto

lemma leadingInt_digits: "leadingInt x s = Some (q, []) \<Longrightarrow> \<forall>c \<in> set s. is09 c"
  by (induction s arbitrary: x) (auto simp: is09_def Let_def split: if_splits)

lemma atoi_digits:
  assumes "atoi s = Some y" "s \<noteq> []" "is09 (hd s)"
  shows "\<forall>c \<in> set s. is09 c"
proof -
  have "hd s \<noteq> CHR ''-''" "hd s \<noteq> CHR ''+''"
    using assms(3) by (auto simp: is09_def byte_def)
  then obtain q where "leadingInt 0 s = Some (q, [])"
    using assms(1,2) by (auto simp: atoi_def Let_def split: option.splits if_splits)
  then show ?thesis by (rule leadingInt_digits)
qed

lemma parse_day:
  assumes "parse_chunks a v ymd [(''-'', stdZeroDay)] = Inr r"
  shows "\<exists>c d. v = [CHR ''-'', c, d] \<and> is09 c \<and> is09 d"
proof -
  obtain y m d0 where ymd: "ymd = (y, m, d0)" by (cases ymd)
  obtain v' ok where s: "skip v ''-'' = (v', ok)" by (cases "skip v ''-''")
  have ok: "ok" using assms s unfolding ymd by (cases ok) auto
  then have v: "v \<noteq> []" "hd v = CHR ''-''" "v' = tl v"
    using s by (auto simp: skip_dash split: if_splits)
  obtain n v'' where g: "getnum v' True = Some (n, v'')"
    using assms s ok unfolding ymd by (auto split: option.splits)
  then have "v'' = []" using assms s ok unfolding ymd by (auto split: if_splits)
  with g obtain c d where "v' = [c, d]" "is09 c" "is09 d"
    by (auto simp: getnum_fixed)
  then show ?thesis using v by (cases v) auto
qed

lemma parse_month:
  assumes "parse_chunks a v ymd [(''-'', stdZeroMonth), (''-'', stdZeroDay)] = Inr r"
  shows "\<exists>c d e f. v = [CHR ''-'', c, d, CHR ''-'', e, f] \<and> is09 c \<and> is09 d \<and> is09 e \<and> is09 f"
proof -
  obtain y m d0 where ymd: "ymd = (y, m, d0)" by (cases ymd)
  obtain v' ok where s: "skip v ''-'' = (v', ok)" by (cases "skip v ''-''")
  have ok: "ok" using assms s unfolding ymd by (cases ok) auto
  then have v: "v \<noteq> []" "hd v = CHR ''-''" "v' = tl v"
    using s by (auto simp: skip_dash split: if_splits)
  obtain n v'' where g: "getnum v' True = Some (n, v'')"
    using assms s ok unfolding ymd by (auto split: option.splits)
  then have "parse_chunks a v'' (y, n, d0) [(''-'', stdZeroDay)] = Inr r"
    using assms s ok unfolding ymd by (auto split: if_splits)
  from parse_day [OF this] obtain e f where r: "v'' = [CHR ''-'', e, f]" "is09 e" "is09 f"
    by blast
  from g obtain c d where "v' = c # d # v''" "is09 c" "is09 d"
    by (auto simp: getnum_fixed)
  then show ?thesis using v r by (cases v) auto
qed

lemma parse_year:
  assumes "parse_chunks a v ymd dateLayout_chunks = Inr r"
  shows "matches_pattern v"
proof -
  obtain y m d0 where ymd: "ymd = (y, m, d0)" by (cases ymd)
  have l: "\<not> length v < 4" "isDigit v 0"
    using assms unfolding ymd dateLayout_chunks_def by (auto split: if_splits)
  obtain n where n: "atoi (take 4 v) = Some n"
    using assms l unfolding ymd dateLayout_chunks_def by (auto split: option.splits)
  then have "parse_chunks a (drop 4 v) (n, m, d0) [(''-'', stdZeroMonth), (''-'', stdZeroDay)]
             = Inr r"
    using assms l unfolding ymd dateLayout_chunks_def by auto
  from parse_month [OF this] obtain c d e f where
    r: "drop 4 v = [CHR ''-'', c, d, CHR ''-'', e, f]" "is09 c" "is09 d" "is09 e" "is09 f"
    by blast
  obtain y0 y1 y2 y3 where t: "take 4 v = [y0, y1, y2, y3]"
    using l(1) by (cases v; cases "tl v"; cases "tl (tl v)"; cases "tl (tl (tl v))") auto
  have "is09 (hd (take 4 v))" using l by (auto simp: isDigit_0)
  with atoi_digits [OF n] t have y: "is09 y0" "is09 y1" "is09 y2" "is09 y3" by auto
  have "v = take 4 v @ drop 4 v" by simp
  then have "v = [y0, y1, y2, y3, CHR ''-'', c, d, CHR ''-'', e, f]"
    unfolding t r by simp
  then show ?thesis using y r by (simp add: matches_pattern_def)
qed

lemma Parse_matches: "Parse s = Inr t \<Longrightarrow> matches_pattern s"
  by (auto simp: Parse_def split: sum.splits dest: parse_year)

section \<open>Decoding what was encoded\<close>

lemma htmlSafe_plain:
  assumes "htmlSafe c"
  shows "c \<noteq> CHR 0x22" "c \<noteq> CHR 0x5C" "\<not> byte c < 0x20" "byte c < 0x80"
  using assms by (auto simp: htmlSafe_def)

lemma scan_string_body:
  assumes "\<forall>c \<in> set s. htmlSafe c"
  shows "scan_all (stateInString, ps) (s @ [CHR 0x22] @ r) = scan_all (stateEndValue, ps) r"
  using assms
proof (induction s)
  case Nil
  show ?case by (simp add: scan_step_def)
next
  case (Cons c s)
  then have "scan_step (stateInString, ps) c = (stateInString, ps)"
    by (simp add: scan_step_def htmlSafe_plain)
  then show ?case using Cons by simp
qed

lemma checkValid_quoted:
  assumes "\<forall>c \<in> set s. htmlSafe c"
  shows "checkValid (quoted s) = None"
proof -
  have "scan_step (stateBeginValue, []) (CHR 0x22) = (stateInString, [])"
    by (simp add: scan_step_def run_stateBeginValue_def isSpace_def byte_def)
  then have "scan_all (stateBeginValue, []) (quoted s) = scan_all (stateInString, []) (s @ [CHR 0x22] @ [])"
    by (simp add: quoted_def)
  also have "\<dots> = (stateEndValue, [])"
    unfolding scan_string_body [OF assms] by simp
  finally show ?thesis
    by (simp add: checkValid_def scan_step_def run_stateEndValue_def run_stateEndTop_def
        isSpace_def byte_def)
qed

lemma rescanLiteral_plain:
  assumes "\<forall>c \<in> set s. htmlSafe c"
  shows "rescanLiteral (s @ [CHR 0x22]) = s"
  using assms
proof (induction s)
  case Nil
  show ?case by simp
next
  case (Cons c s)
  then show ?case
    by (cases "s @ [CHR 0x22]") (auto simp: htmlSafe_plain)
qed

lemma unquote_body_plain:
  assumes "\<forall>c \<in> set s. htmlSafe c"
  shows "unquote_body s = Some s"
  using assms by (induction s) (simp_all add: htmlSafe_plain)

lemma Unmarshal_string_quoted:
  assumes "\<forall>c \<in> set s. htmlSafe c"
  shows "Unmarshal_string (quoted s) v = (None, s)"
proof -
  have "\<not> isSpace (CHR 0x22)" by (simp add: isSpace_def)
  then have "dropWhile isSpace (quoted s) = CHR 0x22 # s @ [CHR 0x22]"
    by (simp add: quoted_def)
  then show ?thesis
    using checkValid_quoted [OF assms] rescanLiteral_plain [OF assms] unquote_body_plain [OF assms]
    by (simp add: Unmarshal_string_def)
qed

section \<open>Parsing what was formatted\<close>

lemma is09_digit: "k < 10 \<Longrightarrow> is09 (digit_char k)"
  by (simp add: is09_def byte_digit_char)

lemma getnum_digits2:
  assumes "0 \<le> n" "n \<le> 99"
  shows "getnum (digits2 n @ r) True = Some (n, r)"
proof -
  define k where "k = nat n"
  have k: "k < 100" "n = int k" using assms by (simp_all add: k_def)
  have t: "k div 10 mod 10 = k div 10" using k(1) by simp
  have u: "k div 10 < 10" "k mod 10 < 10" using k(1) by simp_all
  have "int (k div 10 * 10 + k mod 10) = n" unfolding k(2) by simp
  then have v: "int (k div 10) * 10 + int (k mod 10) = n"
    by (simp only: of_nat_add of_nat_mult of_nat_numeral)
  have "getnum (digits2 n @ r) True = Some (int (k div 10) * 10 + int (k mod 10), r)"
    unfolding getnum_fixed digits2_def k_def [symmetric] t
    using is09_digit [OF u(1)] is09_digit [OF u(2)]
    by (simp add: byte_digit_char u)
  then show ?thesis unfolding v .
qed

lemma leadingInt_digit:
  assumes "k < 10" "0 \<le> x" "x < 1000000"
  shows "leadingInt x (digit_char k # s) = leadingInt (x * 10 + int k) s"
  using assms by (simp add: byte_digit_char Let_def)

lemma atoi_digits4:
  assumes "0 \<le> n" "n \<le> 9999"
  shows "atoi (digits4 n) = Some n"
proof -
  define k where "k = nat n"
  have k: "k < 10000" "n = int k" using assms by (simp_all add: k_def)
  define a b c e where "a = k div 1000 mod 10" and "b = k div 100 mod 10"
    and "c = k div 10 mod 10" and "e = k mod 10"
  have u: "a < 10" "b < 10" "c < 10" "e < 10" by (simp_all add: a_def b_def c_def e_def)
  have d: "k div 10 div 10 = k div 100" "k div 100 div 10 = k div 1000" by arith+
  have a': "a = k div 1000" using k(1) by (simp add: a_def)
  have s1: "k = k div 10 * 10 + e" by (simp add: e_def)
  have s2: "k div 10 = k div 100 * 10 + c"
    using div_mult_mod_eq [of "k div 10" 10] by (simp add: c_def d)
  have s3: "k div 100 = a * 10 + b"
    using div_mult_mod_eq [of "k div 100" 10] by (simp add: b_def a' d)
  have "((a * 10 + b) * 10 + c) * 10 + e = k"
    using s1 s2 s3 by simp
  then have "int (((a * 10 + b) * 10 + c) * 10 + e) = n"
    unfolding k(2) by (rule arg_cong)
  then have v: "((int a * 10 + int b) * 10 + int c) * 10 + int e = n"
    by simp
  have h: "hd (digits4 n) \<noteq> CHR ''-''" "hd (digits4 n) \<noteq> CHR ''+''"
    using is09_digit [OF u(1)]
    by (auto simp: digits4_def k_def [symmetric] a_def [symmetric] is09_def byte_def)
  have l: "leadingInt 0 (digits4 n) = Some (((int a * 10 + int b) * 10 + int c) * 10 + int e, [])"
    using u unfolding digits4_def k_def [symmetric] a_def [symmetric] b_def [symmetric]
      c_def [symmetric] e_def [symmetric]
    by (simp add: leadingInt_digit del: leadingInt.simps(2))
  have ne: "digits4 n \<noteq> []" by (simp add: digits4_def)
  show ?thesis using h l ne unfolding atoi_def Let_def v by simp
qed

lemma digits_length: "length (digits4 y) = 4" "length (digits2 m) = 2"
  by (simp_all add: digits4_def digits2_def)

lemma parse_year_stage:
  assumes "0 \<le> y" "y \<le> 9999"
  shows "parse_chunks a (digits4 y @ r) (y0, m0, d0) (([], stdLongYear) # l)
         = parse_chunks a r (y, m0, d0) l"
proof -
  have "nat y div 1000 mod 10 < 10" by simp
  then have "is09 (digit_char (nat y div 1000 mod 10))" by (rule is09_digit)
  then have i: "isDigit (digits4 y @ r) 0"
    unfolding isDigit_0 by (simp add: digits4_def)
  have t: "take 4 (digits4 y @ r) = digits4 y" "drop 4 (digits4 y @ r) = r"
    "\<not> length (digits4 y @ r) < 4"
    by (simp_all add: digits_length)
  show ?thesis
    by (simp only: parse_chunks.simps skip.simps prod.case bool.case std.case i t
        atoi_digits4 [OF assms] option.case simp_thms if_False)
qed

lemma parse_month_stage:
  assumes "1 \<le> m" "m \<le> 12"
  shows "parse_chunks a (''-'' @ digits2 m @ r) (y, m0, d0) ((''-'', stdZeroMonth) # l)
         = parse_chunks a r (y, m, d0) l"
proof -
  have s: "skip (''-'' @ digits2 m @ r) ''-'' = (digits2 m @ r, True)" by simp
  have g: "getnum (digits2 m @ r) True = Some (m, r)"
    using assms by (intro getnum_digits2) simp_all
  have n: "\<not> (m \<le> 0 \<or> 12 < m)" using assms by simp
  show ?thesis
    by (simp only: parse_chunks.simps s g prod.case bool.case std.case option.case n if_False)
qed

lemma parse_day_stage:
  assumes "0 \<le> d" "d \<le> 99"
  shows "parse_chunks a (''-'' @ digits2 d) (y, m, d0) [(''-'', stdZeroDay)] = Inr (y, m, d)"
proof -
  have s: "skip (''-'' @ digits2 d) ''-'' = (digits2 d, True)" by simp
  have g: "getnum (digits2 d) True = Some (d, [])"
    using getnum_digits2 [OF assms, of "[]"] by simp
  show ?thesis
    by (simp only: parse_chunks.simps s g prod.case bool.case std.case option.case
        simp_thms if_False)
qed

lemma daysIn_le_31:
  assumes "1 \<le> m" "m \<le> 12"
  shows "daysIn m y \<le> 31"
  using month_table(4) [OF assms] by (simp add: daysIn_def)

lemma Parse_yyyy_mm_dd:
  assumes "valid_date y m d"
  shows "Parse (yyyy_mm_dd y m d) = Inr (Date y m d 0 0 0 0 UTC)"
proof -
  have v: "0 \<le> y" "y \<le> 9999" "1 \<le> m" "m \<le> 12" "1 \<le> d" "d \<le> daysIn m y"
    using assms by (simp_all add: valid_date_def)
  have d: "0 \<le> d" "d \<le> 99" using v(5,6) daysIn_le_31 [OF v(3,4), of y] by simp_all
  have "parse_chunks a (yyyy_mm_dd y m d) (0, - 1, - 1) dateLayout_chunks = Inr (y, m, d)" for a
    unfolding yyyy_mm_dd_def dateLayout_chunks_def
    by (simp only: parse_year_stage [OF v(1,2)] parse_month_stage [OF v(3,4)]
        parse_day_stage [OF d])
  then show ?thesis using v(5,6) by (simp add: Parse_def)
qed

section \<open>The rejected inputs\<close>

lemma Unmarshal_string_other:
  assumes "\<not> is_json_string v" "Unmarshal_string v w = (e, s)"
  shows "s = w"
  using assms
  by (auto simp: is_json_string_def Unmarshal_string_def split: option.splits list.splits if_splits)

lemma UnmarshalJSON_accepts:
  assumes "fst (UnmarshalJSON d v) = None"
  shows "\<exists>s. Unmarshal_string v [] = (None, s) \<and> matches_pattern s"
proof -
  obtain e s where u: "Unmarshal_string v [] = (e, s)" by (cases "Unmarshal_string v []")
  have e: "e = None" using assms u by (cases e) (simp_all add: UnmarshalJSON_def)
  obtain t where "Parse s = Inr t"
    using assms u e by (cases "Parse s") (simp_all add: UnmarshalJSON_def)
  then have "matches_pattern s" by (rule Parse_matches)
  then show ?thesis using u e by simp
qed

lemma htmlSafe_examples:
  "\<forall>c \<in> set ''03/26/2012''. htmlSafe c"
  "\<forall>c \<in> set ''2012-3-26''. htmlSafe c"
  "\<forall>c \<in> set ''2012-03-26T00:00:00''. htmlSafe c"
  by (simp_all add: htmlSafe_def byte_def)

lemma pattern_examples:
  "\<not> matches_pattern ''03/26/2012''"
  "\<not> matches_pattern ''2012-3-26''"
  "\<not> matches_pattern ''2012-03-26T00:00:00''"
  by (simp_all add: matches_pattern_def is09_def byte_def)

text \<open>
  Claim C2. \<open>UnmarshalJSON\<close> returns an error for every input whose decoded string does
  not have the shape \<open>YYYY-MM-DD\<close> (four digits, a hyphen, two digits, a hyphen, two
  digits, and nothing else), and for every input that is not a JSON string: it then
  either is no JSON at all, or is a number, a boolean, an object or an array, or is
  \<open>null\<close>, which leaves the empty string to be parsed. In particular the JSON strings
  \<open>"03/26/2012"\<close>, \<open>"2012-3-26"\<close> and \<open>"2012-03-26T00:00:00"\<close> are rejected.
\<close>

theorem UnmarshalJSON_rejects:
  "(Unmarshal_string v [] = (None, s) \<and> \<not> matches_pattern s
      \<longrightarrow> fst (UnmarshalJSON d v) \<noteq> None)
   \<and> (\<not> is_json_string v \<longrightarrow> fst (UnmarshalJSON d v) \<noteq> None)
   \<and> fst (UnmarshalJSON d (quoted ''03/26/2012'')) \<noteq> None
   \<and> fst (UnmarshalJSON d (quoted ''2012-3-26'')) \<noteq> None
   \<and> fst (UnmarshalJSON d (quoted ''2012-03-26T00:00:00'')) \<noteq> None"
proof -
  have a: "fst (UnmarshalJSON d v) \<noteq> None"
    if "Unmarshal_string v [] = (None, s)" "\<not> matches_pattern s" for d v s
    using UnmarshalJSON_accepts [of d v] that by auto
  have b: "fst (UnmarshalJSON d v) \<noteq> None" if n: "\<not> is_json_string v"
  proof
    assume "fst (UnmarshalJSON d v) = None"
    then obtain s where s: "Unmarshal_string v [] = (None, s)" "matches_pattern s"
      using UnmarshalJSON_accepts by blast
    from Unmarshal_string_other [OF n s(1)] s(2) show False
      by (simp add: matches_pattern_def)
  qed
  note c = a [OF Unmarshal_string_quoted [OF htmlSafe_examples(1)] pattern_examples(1)]
    a [OF Unmarshal_string_quoted [OF htmlSafe_examples(2)] pattern_examples(2)]
    a [OF Unmarshal_string_quoted [OF htmlSafe_examples(3)] pattern_examples(3)]
  show ?thesis using a [of v s d] b c by blast
qed

theorem UnmarshalJSON_rejects_witness:
  "Unmarshal_string (quoted ''26.03.2012'') [] = (None, ''26.03.2012'')
   \<and> \<not> matches_pattern ''26.03.2012''
   \<and> fst (UnmarshalJSON date_2012_03_26 (quoted ''26.03.2012'')) \<noteq> None
   \<and> \<not> is_json_string ''20120326''
   \<and> fst (UnmarshalJSON date_2012_03_26 ''20120326'') \<noteq> None"
proof -
  have h: "\<forall>c \<in> set ''26.03.2012''. htmlSafe c" by (simp add: htmlSafe_def byte_def)
  have p: "\<not> matches_pattern ''26.03.2012''" by (simp add: matches_pattern_def is09_def byte_def)
  have j: "\<not> is_json_string ''20120326''" by (simp add: is_json_string_def isSpace_def)
  note u = Unmarshal_string_quoted [OF h, of "[]"]
  note t = UnmarshalJSON_rejects [of "quoted ''26.03.2012''" "''26.03.2012''" date_2012_03_26]
    UnmarshalJSON_rejects [of "''20120326''" "[]" date_2012_03_26]
  show ?thesis using t u p j by blast
qed

section \<open>Beyond the four-digit years\<close>

lemma absDate_10000_01_01:
  "absDate (uint (abs_time (Date 10000 1 1 0 0 0 0 UTC))) = (10000, 1, 1, 0)"
proof -
  have m: "(1::int) \<le> 1" "(1::int) \<le> 12" by simp_all
  have d: "(1::int) \<le> 1" "(1::int) \<le> daysIn 1 10000"
    by (simp_all add: daysIn_def February_def daysBefore_nth)
  have z: "absoluteZeroYear \<le> 10000" "10000 - absoluteZeroYear < 2 ^ 64"
    by (simp_all add: absoluteZeroYear_def)
  have yd: "yday_of 10000 1 1 = 0"
    by (simp add: yday_of_def March_def daysBefore_nth)
  note b = daysSinceEpoch_bounds [OF z]
  have "daysSinceEpoch 10000 \<le> 366 * 292277032399"
    using b(2) by (simp add: absoluteZeroYear_def)
  then have r: "0 \<le> (daysSinceEpoch 10000 + 0) * 86400"
    "(daysSinceEpoch 10000 + 0) * 86400 < 2 ^ 64"
    using b(1) by simp_all
  have u: "uint (abs_time (Date 10000 1 1 0 0 0 0 UTC)) = (daysSinceEpoch 10000 + 0) * 86400"
    unfolding Date_in_range [OF m] abs_time_plain uint_word_of_int yd
    using r by (simp add: mod_pos_pos_trivial)
  have "absYear ((daysSinceEpoch 10000 + 0) * 86400 + 0) = (10000, 0)"
    by (intro absYear_daysSinceEpoch z) simp_all
  then have a: "absYear ((daysSinceEpoch 10000 + 0) * 86400) = (10000, 0)"
    by simp
  have c: "monthDay 10000 0 = (1, 1)"
    using monthDay_inverse [OF m d] by (simp add: March_def daysBefore_nth)
  show ?thesis
    unfolding u absDate_def a by (simp add: c)
qed

lemma year_10000_not_read_back:
  "MarshalJSON (Date 10000 1 1 0 0 0 0 UTC) = Inr (quoted ''10000-01-01'')
   \<and> fst (UnmarshalJSON r (quoted ''10000-01-01''))
       = Some (ParseError ''2006-01-02'' ''10000-01-01'' ''-'' ''0-01-01'' [])"
proof -
  have "decimal 1000 = ''1000''"
    by (subst decimal_lt_10000)
       (simp_all add: digit_char_def char_of_eq_iff_byte byte_def)
  then have y: "decimal 10000 = ''10000''"
    by (subst decimal.simps) (simp add: digit_char_def char_of_eq_iff_byte byte_def)
  have o: "digits2 1 = ''01''"
    by (simp add: digits2_def digit_char_def char_of_eq_iff_byte byte_def)
  have f: "appendFormat [] (10000, 1, 1) dateLayout_chunks = ''10000-01-01''"
    by (simp add: dateLayout_chunks_def appendInt_2 o) (simp add: appendInt_def y)
  have "Format (Date 10000 1 1 0 0 0 0 UTC) = ''10000-01-01''"
    by (simp add: Format_def absDate_10000_01_01 f)
  moreover have "fst (UnmarshalJSON r (quoted ''10000-01-01''))
       = Some (ParseError ''2006-01-02'' ''10000-01-01'' ''-'' ''0-01-01'' [])"
    by code_simp
  ultimately show ?thesis by (simp add: MarshalJSON_Format)
qed

section \<open>Every time value has a day of its month\<close>

lemma monthDay_valid:
  assumes "0 \<le> yd" "yd \<le> 365" "yd = 365 \<longrightarrow> isLeap year" "monthDay year yd = (m, d)"
  shows "1 \<le> m \<and> m \<le> 12 \<and> 1 \<le> d \<and> d \<le> daysIn m year"
proof (cases "isLeap year \<and> yd = 31 + 29 - 1")
  case True
  then show ?thesis using assms by (auto simp: monthDay_def February_def daysIn_def)
next
  case False
  define day where "day = (if isLeap year \<and> yd > 31 + 29 - 1 then yd - 1 else yd)"
  have day: "0 \<le> day" "day \<le> 364" using assms(1-3) by (auto simp: day_def)
  have md: "monthEstimate day = (m, d)"
    using assms(4) False by (auto simp: monthDay_def day_def split: if_splits)
  have r: "1 \<le> m \<and> m \<le> 12 \<and> 1 \<le> d \<and> d \<le> 31"
    by (rule monthDay_range [OF assms])
  then have m: "1 \<le> m" "m \<le> 12" by simp_all
  note t = month_table [OF m]
  have w: "daysBefore ! nat (m - 1) \<le> day \<and> day < daysBefore ! nat m"
  proof (rule ccontr)
    assume n: "\<not> ?thesis"
    have "\<exists>k. 1 \<le> k \<and> k \<le> 12 \<and> daysBefore ! nat (k - 1) \<le> day \<and> day < daysBefore ! nat k"
    proof -
      have "\<not> (\<forall>k \<in> {1..12::int}. \<not> (daysBefore ! nat (k - 1) \<le> day \<and> day < daysBefore ! nat k))"
      proof
        assume a: "\<forall>k \<in> {1..12::int}. \<not> (daysBefore ! nat (k - 1) \<le> day \<and> day < daysBefore ! nat k)"
        have "\<not> (daysBefore ! nat (k - 1) \<le> day \<and> day < daysBefore ! nat k)"
          if "k \<in> {1, 2, 3, 4, 5, 6, 7, 8, 9, 10, 11, 12}" for k :: int
          using a that by auto
        from this [of 1] this [of 2] this [of 3] this [of 4] this [of 5] this [of 6]
          this [of 7] this [of 8] this [of 9] this [of 10] this [of 11] this [of 12]
        show False using day by (simp add: daysBefore_nth)
      qed
      then show ?thesis by auto
    qed
    then obtain k where k: "1 \<le> k" "k \<le> 12" "daysBefore ! nat (k - 1) \<le> day"
      "day < daysBefore ! nat k" by blast
    note u = month_table [OF k(1,2)]
    from monthEstimate_window [OF k(1) refl refl u(1,2) k(3,4)] md
    have "m = k" by simp
    with k n show False by simp
  qed
  from monthEstimate_window [OF m(1) refl refl t(1,2)] w md
  have d: "d = day - daysBefore ! nat (m - 1) + 1" by simp
  have "d \<le> daysBefore ! nat m - daysBefore ! nat (m - 1)" using w d by simp
  moreover have "daysBefore ! nat m - daysBefore ! nat (m - 1) \<le> daysIn m year"
    using m by (auto simp: daysIn_def February_def daysBefore_nth)
  ultimately show ?thesis using r by simp
qed

lemma absDate_valid:
  assumes "0 \<le> a" "absDate a = (y, m, d, yd)"
  shows "1 \<le> m \<and> m \<le> 12 \<and> 1 \<le> d \<and> d \<le> daysIn m y"
proof -
  obtain yday where r: "absYear a = (y, yday)"
    using assms(2) by (cases "absYear a") (auto simp: absDate_def split: prod.splits)
  obtain m' d' where md: "monthDay y yday = (m', d')" by (cases "monthDay y yday")
  from assms(2) r md have "m' = m" "d' = d" by (simp_all add: absDate_def)
  with monthDay_valid [OF absYear_range [OF assms(1) r] md] show ?thesis by simp
qed

section \<open>A time of day on a calendar date\<close>

lemma Date_afternoon:
  "Date 2012 3 26 15 4 5 0 UTC
   = \<lparr>wall = 0,
      ext = word_of_int ((daysSinceEpoch 2012 + 85) * 86400 + 54245 + absoluteToInternal),
      loc = None\<rparr>"
proof -
  have n: "norm 2012 (3 - 1) 12 = (2012, 3 - 1)" "norm 5 0 1000000000 = (5, 0)"
    "norm 4 5 60 = (4, 5)" "norm 15 4 60 = (15, 4)" "norm 26 15 24 = (26, 15)"
    by (simp_all add: norm_id)
  have l: "lookup UTC s = (0, - (2 ^ 63), 2 ^ 63 - 1)" for s
    by (simp add: lookup_def)
  show ?thesis
    unfolding Date_def Let_def n l time_constants
    by (simp add: n internalToUnix_def isLeap_def March_def daysBefore_nth)
qed

lemma absDate_afternoon:
  "absDate (uint (abs_time (Date 2012 3 26 15 4 5 0 UTC))) = (2012, 3, 26, 85)"
proof -
  have z: "absoluteZeroYear \<le> 2012" "2012 - absoluteZeroYear < 2 ^ 64"
    by (simp_all add: absoluteZeroYear_def)
  note b = daysSinceEpoch_bounds [OF z]
  have "daysSinceEpoch 2012 \<le> 366 * 292277032399"
    using b(2) by (simp add: absoluteZeroYear_def)
  then have r: "0 \<le> (daysSinceEpoch 2012 + 85) * 86400 + 54245"
    "(daysSinceEpoch 2012 + 85) * 86400 + 54245 < 2 ^ 64"
    using b(1) by simp_all
  have u: "uint (abs_time (Date 2012 3 26 15 4 5 0 UTC))
           = (daysSinceEpoch 2012 + 85) * 86400 + 54245"
    unfolding Date_afternoon abs_time_plain uint_word_of_int
    using r by (simp add: mod_pos_pos_trivial)
  have a: "absYear ((daysSinceEpoch 2012 + 85) * 86400 + 54245) = (2012, 85)"
    by (intro absYear_daysSinceEpoch z) simp_all
  have c: "monthDay 2012 85 = (3, 26)"
    using monthDay_inverse [of 3 26 2012]
    by (simp add: daysIn_def February_def March_def isLeap_def daysBefore_nth)
  show ?thesis
    unfolding u absDate_def a by (simp add: c)
qed

lemma Date_afternoon_differs:
  "Date 2012 3 26 15 4 5 0 UTC \<noteq> Date 2012 3 26 0 0 0 0 UTC"
proof
  assume "Date 2012 3 26 15 4 5 0 UTC = Date 2012 3 26 0 0 0 0 UTC"
  then have "ext (Date 2012 3 26 15 4 5 0 UTC) = ext (Date 2012 3 26 0 0 0 0 UTC)"
    by simp
  then have "(word_of_int ((daysSinceEpoch 2012 + 85) * 86400 + absoluteToInternal) :: 64 word)
               + 54245
             = word_of_int ((daysSinceEpoch 2012 + 85) * 86400 + absoluteToInternal)"
    unfolding Date_afternoon
    by (simp add: Date_in_range yday_of_def isLeap_def March_def daysBefore_nth add.commute
        add.left_commute)
  then show False by simp
qed

section \<open>The round trip\<close>

lemma round_trip_of_day:
  assumes "absDate (uint (abs_time t)) = (y, m, d, yd)" "0 \<le> y" "y \<le> 9999"
  shows "MarshalJSON t = Inr (quoted (yyyy_mm_dd y m d))"
    "UnmarshalJSON r (quoted (yyyy_mm_dd y m d)) = (None, Date y m d 0 0 0 0 UTC)"
proof -
  have v: "valid_date y m d"
    using absDate_valid [OF _ assms(1)] assms(2,3) by (simp add: valid_date_def)
  have f: "Format t = yyyy_mm_dd y m d"
    by (rule Format_shape [OF assms])
  have "\<forall>c \<in> set (Format t). htmlSafe c"
    using htmlSafe_Format by blast
  then have u: "Unmarshal_string (quoted (yyyy_mm_dd y m d)) [] = (None, yyyy_mm_dd y m d)"
    unfolding f by (rule Unmarshal_string_quoted)
  show "MarshalJSON t = Inr (quoted (yyyy_mm_dd y m d))"
    by (simp add: MarshalJSON_Format f)
  show "UnmarshalJSON r (quoted (yyyy_mm_dd y m d)) = (None, Date y m d 0 0 0 0 UTC)"
    by (simp add: UnmarshalJSON_def u Parse_yyyy_mm_dd [OF v])
qed

text \<open>
  Claim C1, as stated, says that every valid calendar date comes back from encoding and
  decoding. It fails in two ways. The first day of the year 10000 is a calendar date that
  a \<open>Date\<close> holds; \<open>MarshalJSON\<close> writes it with five digits of the year, as
  \<open>"10000-01-01"\<close>, and \<open>UnmarshalJSON\<close> returns an error on that text. And a \<open>Date\<close>
  that holds a time of day, such as 15:04:05 on 26 March 2012, is encoded as
  \<open>"2012-03-26"\<close>, which is decoded to midnight of that day, another value.
\<close>

theorem Date_round_trip_counterexample:
  "MarshalJSON (Date 10000 1 1 0 0 0 0 UTC) = Inr (quoted ''10000-01-01'')
   \<and> fst (UnmarshalJSON (Date 1999 12 31 0 0 0 0 UTC) (quoted ''10000-01-01''))
       = Some (ParseError ''2006-01-02'' ''10000-01-01'' ''-'' ''0-01-01'' [])
   \<and> MarshalJSON (Date 2012 3 26 15 4 5 0 UTC) = Inr (quoted ''2012-03-26'')
   \<and> UnmarshalJSON (Date 1999 12 31 0 0 0 0 UTC) (quoted ''2012-03-26'')
       = (None, Date 2012 3 26 0 0 0 0 UTC)
   \<and> Date 2012 3 26 0 0 0 0 UTC \<noteq> Date 2012 3 26 15 4 5 0 UTC"
proof -
  have e: "yyyy_mm_dd 2012 3 26 = ''2012-03-26''"
    by (simp add: yyyy_mm_dd_def digits4_def digits2_def digit_char_def char_of_eq_iff_byte
        byte_def)
  note a = round_trip_of_day(1) [OF absDate_afternoon, unfolded e]
    round_trip_of_day(2) [OF absDate_afternoon, where r = "Date 1999 12 31 0 0 0 0 UTC",
      unfolded e]
  show ?thesis
    using year_10000_not_read_back [of "Date 1999 12 31 0 0 0 0 UTC"] a
      Date_afternoon_differs
    by simp
qed

text \<open>
  Claim C1, amended. For every valid calendar date with a year from 0000 to 9999 (a
  month of the year and a day of that month), held as a \<open>Date\<close> at midnight UTC,
  \<open>MarshalJSON\<close> returns the JSON string of its \<open>YYYY-MM-DD\<close> text, and \<open>UnmarshalJSON\<close>
  applied to that JSON text returns no error and sets the receiver, whatever it held
  before, to the original \<open>Date\<close>. More generally, for every \<open>Date\<close> value whose year
  is from 0000 to 9999, whatever its time of day and its location, the round trip
  returns no error and gives midnight UTC of the calendar day that the value shows.
\<close>

theorem Date_round_trip:
  "(valid_date y m d \<longrightarrow>
      MarshalJSON (Date y m d 0 0 0 0 UTC) = Inr (quoted (yyyy_mm_dd y m d))
      \<and> UnmarshalJSON r (quoted (yyyy_mm_dd y m d)) = (None, Date y m d 0 0 0 0 UTC))
   \<and> (absDate (uint (abs_time t)) = (y', m', d', yd) \<and> 0 \<le> y' \<and> y' \<le> 9999 \<longrightarrow>
      MarshalJSON t = Inr (quoted (yyyy_mm_dd y' m' d'))
      \<and> UnmarshalJSON r (quoted (yyyy_mm_dd y' m' d')) = (None, Date y' m' d' 0 0 0 0 UTC))"
proof (intro conjI impI)
  assume v: "valid_date y m d"
  then have b: "0 \<le> y" "y \<le> 9999" by (simp_all add: valid_date_def)
  note a = round_trip_of_day [OF absDate_Date [OF v] b]
  show "MarshalJSON (Date y m d 0 0 0 0 UTC) = Inr (quoted (yyyy_mm_dd y m d))"
    by (rule a(1))
  show "UnmarshalJSON r (quoted (yyyy_mm_dd y m d)) = (None, Date y m d 0 0 0 0 UTC)"
    by (rule a(2))
next
  assume h: "absDate (uint (abs_time t)) = (y', m', d', yd) \<and> 0 \<le> y' \<and> y' \<le> 9999"
  then have a: "absDate (uint (abs_time t)) = (y', m', d', yd)" and b: "0 \<le> y'" "y' \<le> 9999"
    by simp_all
  show "MarshalJSON t = Inr (quoted (yyyy_mm_dd y' m' d'))"
    by (rule round_trip_of_day(1) [OF a b])
  show "UnmarshalJSON r (quoted (yyyy_mm_dd y' m' d')) = (None, Date y' m' d' 0 0 0 0 UTC)"
    by (rule round_trip_of_day(2) [OF a b])
qed

theorem Date_round_trip_witness:
  "valid_date 2012 3 26
   \<and> yyyy_mm_dd 2012 3 26 = ''2012-03-26''
   \<and> MarshalJSON (Date 2012 3 26 0 0 0 0 UTC) = Inr (quoted ''2012-03-26'')
   \<and> UnmarshalJSON (Date 1999 12 31 0 0 0 0 UTC) (quoted ''2012-03-26'')
       = (None, Date 2012 3 26 0 0 0 0 UTC)
   \<and> absDate (uint (abs_time (Date 2012 3 26 15 4 5 0 UTC))) = (2012, 3, 26, 85)
   \<and> MarshalJSON (Date 2012 3 26 15 4 5 0 UTC) = Inr (quoted ''2012-03-26'')"
proof -
  have v: "valid_date 2012 3 26"
    by (simp add: valid_date_def daysIn_def February_def daysBefore_nth)
  have e: "yyyy_mm_dd 2012 3 26 = ''2012-03-26''"
    by (simp add: yyyy_mm_dd_def digits4_def digits2_def digit_char_def char_of_eq_iff_byte
        byte_def)
  show ?thesis
    using Date_round_trip [of 2012 3 26 "Date 1999 12 31 0 0 0 0 UTC"
        "Date 2012 3 26 15 4 5 0 UTC" 2012 3 26 85] v absDate_afternoon
    unfolding e by simp
qed

end
